theory Spec2Isabelle
  imports Complex_Main "HOL-Library.Char_ord" "HOL-Library.List_Lexorder" "HOL-Library.Sublist"
    "HOL-Library.Multiset"
begin

section \<open>JavaScript values used by the worker\<close>

text \<open>
  Strings are lists of code units; every code unit is taken below 256, so a JavaScript
  string is a \<^typ>\<open>string\<close>. The relational operators on strings compare code units
  lexicographically, which is the order of \<^typ>\<open>char list\<close>.
\<close>

subsection \<open>Numbers\<close>

text \<open>
  A score is a JavaScript number, a double. The model does not fix the numbers: their type
  is a parameter, and so are the four things the worker does with them, the literal \<open>0\<close>,
  \<open>+\<close>, \<open>/\<close> by a count, and \<open>parseFloat\<close>. What is proved holds for every choice of them,
  the arithmetic of doubles with its rounding, infinities and \<open>NaN\<close> included.
\<close>

record 'n arithmetic =
  num_zero :: 'n
  num_add :: "'n \<Rightarrow> 'n \<Rightarrow> 'n"
  num_div :: "'n \<Rightarrow> nat \<Rightarrow> 'n"
  parseFloat :: "string \<Rightarrow> 'n"

text \<open>
  For the examples, numbers are written as the expressions that compute them: an example
  then shows which operations the worker applies, whatever they return.
\<close>

datatype expression = Zero | ParseFloat string | Plus expression expression | Over expression nat

definition symbolic :: "expression arithmetic" where
  "symbolic = \<lparr>num_zero = Zero, num_add = Plus, num_div = Over, parseFloat = ParseFloat\<rparr>"

subsection \<open>Dates\<close>

text \<open>
  A \<open>Date\<close> is its time value: milliseconds since the epoch, in UTC. The worker runs with
  the time zone UTC, so local time is UTC. The calendar follows the definitions of
  ECMA-262 (Day, TimeWithinDay, DayFromYear, YearFromTime, MonthFromTime, DateFromTime).
\<close>

type_synonym Date = int

definition msPerDay :: int where
  "msPerDay = 86400000"

definition msPerHour :: int where
  "msPerHour = 3600000"

definition Day :: "Date \<Rightarrow> int" where
  "Day t = t div msPerDay"

definition TimeWithinDay :: "Date \<Rightarrow> int" where
  "TimeWithinDay t = t mod msPerDay"

definition DayFromYear :: "int \<Rightarrow> int" where
  "DayFromYear y = 365 * (y - 1970) + (y - 1969) div 4 - (y - 1901) div 100 + (y - 1601) div 400"

definition InLeapYear :: "int \<Rightarrow> bool" where
  "InLeapYear y = (y mod 4 = 0 \<and> (y mod 100 \<noteq> 0 \<or> y mod 400 = 0))"

lemma div_succ:
  fixes n k :: int
  assumes "0 < k"
  shows "(n + 1) div k = n div k + (if (n + 1) mod k = 0 then 1 else 0)"
proof (cases "(n + 1) mod k = 0")
  case True
  then obtain q where q: "n + 1 = k * q"
    by (auto simp: mod_eq_0_iff_dvd)
  then have n: "n = k * (q - 1) + (k - 1)"
    by (simp add: algebra_simps)
  have "(k * (q - 1) + (k - 1)) div k = (q - 1) + (k - 1) div k"
    using assms by (subst div_mult_self4) auto
  also have "(k - 1) div k = 0"
    using assms by (simp add: div_pos_pos_trivial)
  finally have "n div k = q - 1"
    using n by simp
  moreover have "(n + 1) div k = q"
    using q assms by simp
  ultimately show ?thesis
    using True by simp
next
  case False
  have b: "n mod k < k" "0 \<le> n mod k"
    using assms by simp_all
  moreover have "n mod k + 1 \<noteq> k"
  proof
    assume "n mod k + 1 = k"
    then have "(n mod k + 1) mod k = 0"
      by simp
    then have "(n + 1) mod k = 0"
      by (simp add: mod_add_left_eq)
    with False show False
      by simp
  qed
  ultimately have r: "n mod k + 1 < k"
    by linarith
  have "(n + 1) div k = (k * (n div k) + (n mod k + 1)) div k"
    by simp
  also have "\<dots> = n div k + (n mod k + 1) div k"
    using assms by (subst div_mult_self4) auto
  also have "(n mod k + 1) div k = 0"
    using r b by (intro div_pos_pos_trivial) auto
  finally show ?thesis
    using False by simp
qed

lemma mod_shift:
  fixes y c k :: int
  assumes "k dvd c"
  shows "((y - c) mod k = 0) = (y mod k = 0)"
  using assms by (simp add: mod_eq_0_iff_dvd dvd_diff_left_iff)

lemma quarter_step: "((y::int) - 1968) div 4 = (y - 1969) div 4 + (if y mod 4 = 0 then 1 else 0)"
    using div_succ [of 4 "y - 1969"] mod_shift [of 4 1968 y] by simp
lemma century_step: "((y::int) - 1900) div 100 = (y - 1901) div 100 + (if y mod 100 = 0 then 1 else 0)"
    using div_succ [of 100 "y - 1901"] mod_shift [of 100 1900 y] by simp
lemma cycle_step: "((y::int) - 1600) div 400 = (y - 1601) div 400 + (if y mod 400 = 0 then 1 else 0)"
    using div_succ [of 400 "y - 1601"] mod_shift [of 400 1600 y] by simp
lemma mod_400_100: "(y::int) mod 400 = 0 \<Longrightarrow> y mod 100 = 0"
    by auto
lemma mod_100_4: "(y::int) mod 100 = 0 \<Longrightarrow> y mod 4 = 0"
    by auto

lemma leap_days:
  fixes P4 P100 P400 :: bool
  assumes "P400 \<Longrightarrow> P100" "P100 \<Longrightarrow> P4"
  shows "(if P4 \<and> (\<not> P100 \<or> P400) then 366 else (365::int)) =
    365 + (if P4 then 1 else 0) - (if P100 then 1 else 0) + (if P400 then 1 else 0)"
  using assms by (cases P4; cases P100; cases P400) simp_all

lemma year_step_sum:
  fixes y a b c i j k :: int
  shows "365 * (y - 1970) + 365 + (a + i) - (b + j) + (c + k) =
    365 * (y - 1970) + a - b + c + (365 + i - j + k)"
  by simp

lemma DayFromYear_step:
  "DayFromYear (y + 1) = DayFromYear y + (if InLeapYear y then 366 else 365)"
proof -
  have e: "DayFromYear (y + 1) =
      365 * (y - 1970) + 365 + (y - 1968) div 4 - (y - 1900) div 100 + (y - 1600) div 400"
    by (simp add: DayFromYear_def)
  have "DayFromYear (y + 1) = DayFromYear y + (365 + (if y mod 4 = 0 then 1 else 0)
      - (if y mod 100 = 0 then 1 else 0) + (if y mod 400 = 0 then 1 else 0))"
    unfolding e quarter_step century_step cycle_step unfolding DayFromYear_def by (rule year_step_sum)
  also have "365 + (if y mod 4 = 0 then 1 else 0)
      - (if y mod 100 = 0 then 1 else 0) + (if y mod 400 = 0 then 1 else 0) =
      (if InLeapYear y then 366 else (365::int))"
    unfolding InLeapYear_def
    by (rule leap_days [symmetric]) (fact mod_400_100 mod_100_4)+
  finally show ?thesis .
qed

lemma DayFromYear_less: "DayFromYear y < DayFromYear (y + 1)"
  by (simp add: DayFromYear_step)

text \<open>The largest year whose first day is not after day \<open>d\<close>, searched upwards from \<open>y\<close>.\<close>

function year_from :: "int \<Rightarrow> int \<Rightarrow> int" where
  "year_from d y = (if DayFromYear (y + 1) \<le> d then year_from d (y + 1) else y)"
  by pat_completeness auto
termination
proof (relation "measure (\<lambda>(d, y). nat (d + 1 - DayFromYear (y + 1)))")
  show "wf (measure (\<lambda>(d, y). nat (d + 1 - DayFromYear (y + 1))))"
    by simp
next
  fix d y :: int
  assume "DayFromYear (y + 1) \<le> d"
  then show "((d, y + 1), (d, y)) \<in> measure (\<lambda>(d, y). nat (d + 1 - DayFromYear (y + 1)))"
    using DayFromYear_less [of "y + 1"] by simp
qed

definition YearFromDay :: "int \<Rightarrow> int" where
  "YearFromDay d = year_from d (1970 + (if 0 \<le> d then d div 366 else d div 365))"

definition YearFromTime :: "Date \<Rightarrow> int" where
  "YearFromTime t = YearFromDay (Day t)"

definition DayWithinYear :: "Date \<Rightarrow> nat" where
  "DayWithinYear t = nat (Day t - DayFromYear (YearFromTime t))"

definition month_lengths :: "bool \<Rightarrow> nat list" where
  "month_lengths leap = [31, if leap then 29 else 28, 31, 30, 31, 30, 31, 31, 30, 31, 30, 31]"

text \<open>Month number (from 0) and day of the month (from 0) of a day of the year.\<close>

fun month_date :: "nat list \<Rightarrow> nat \<Rightarrow> nat \<times> nat" where
  "month_date [] d = (0, d)"
| "month_date (l # ls) d =
     (if d < l then (0, d) else (case month_date ls (d - l) of (m, r) \<Rightarrow> (Suc m, r)))"

definition MonthFromTime :: "Date \<Rightarrow> nat" where
  "MonthFromTime t = fst (month_date (month_lengths (InLeapYear (YearFromTime t))) (DayWithinYear t))"

definition DateFromTime :: "Date \<Rightarrow> nat" where
  "DateFromTime t =
     Suc (snd (month_date (month_lengths (InLeapYear (YearFromTime t))) (DayWithinYear t)))"

definition HourFromTime :: "Date \<Rightarrow> nat" where
  "HourFromTime t = nat (TimeWithinDay t div msPerHour)"

definition MinFromTime :: "Date \<Rightarrow> nat" where
  "MinFromTime t = nat ((TimeWithinDay t div 60000) mod 60)"

definition SecFromTime :: "Date \<Rightarrow> nat" where
  "SecFromTime t = nat ((TimeWithinDay t div 1000) mod 60)"

definition msFromTime :: "Date \<Rightarrow> nat" where
  "msFromTime t = nat (TimeWithinDay t mod 1000)"

definition digit_char :: "nat \<Rightarrow> char" where
  "digit_char d = char_of (48 + d)"

text \<open>The \<open>w\<close> low-order decimal digits of \<open>n\<close>, most significant first.\<close>

fun pad :: "nat \<Rightarrow> nat \<Rightarrow> string" where
  "pad 0 n = []"
| "pad (Suc w) n = pad w (n div 10) @ [digit_char (n mod 10)]"

text \<open>Years 0 to 9999 print with four digits, all others with a sign and six digits.\<close>

definition year_string :: "int \<Rightarrow> string" where
  "year_string y =
     (if 0 \<le> y \<and> y \<le> 9999 then pad 4 (nat y)
      else if y < 0 then CHR ''-'' # pad 6 (nat (- y))
      else CHR ''+'' # pad 6 (nat y))"

definition toISOString :: "Date \<Rightarrow> string" where
  "toISOString t =
     year_string (YearFromTime t) @ ''-'' @ pad 2 (Suc (MonthFromTime t)) @ ''-'' @
     pad 2 (DateFromTime t) @ ''T'' @ pad 2 (HourFromTime t) @ '':'' @
     pad 2 (MinFromTime t) @ '':'' @ pad 2 (SecFromTime t) @ ''.'' @
     pad 3 (msFromTime t) @ ''Z''"

text \<open>
  The setters compose a time value from its parts (\<open>MakeTime\<close>, \<open>MakeDate\<close>); they return
  the new time value of the date. \<open>d.setMinutes(min, sec, ms)\<close> keeps the day and the hour,
  \<open>d.setHours(hour)\<close> keeps the day, the minutes, the seconds and the milliseconds; an hour
  of 24 carries into the next day.
\<close>

definition MakeTime :: "int \<Rightarrow> int \<Rightarrow> int \<Rightarrow> int \<Rightarrow> int" where
  "MakeTime hour minute sec ms = hour * msPerHour + minute * 60000 + sec * 1000 + ms"

definition MakeDate :: "int \<Rightarrow> int \<Rightarrow> Date" where
  "MakeDate day time = day * msPerDay + time"

definition getHours :: "Date \<Rightarrow> int" where
  "getHours t = int (HourFromTime t)"

definition setMinutes :: "int \<Rightarrow> int \<Rightarrow> int \<Rightarrow> Date \<Rightarrow> Date" where
  "setMinutes minute sec ms t = MakeDate (Day t) (MakeTime (int (HourFromTime t)) minute sec ms)"

definition setHours :: "int \<Rightarrow> Date \<Rightarrow> Date" where
  "setHours hour t =
     MakeDate (Day t)
       (MakeTime hour (int (MinFromTime t)) (int (SecFromTime t)) (int (msFromTime t)))"

lemma factor_out:
  fixes a b q r :: int
  shows "(a * b) * q + a * r = a * (b * q + r)"
  by (simp add: algebra_simps)

lemma split_div_mod:
  fixes w a b :: int
  assumes "0 < a" and "0 < b"
  shows "w = (a * b) * (w div (a * b)) + a * ((w div a) mod b) + w mod a"
proof -
  have "w div (a * b) = (w div a) div b"
    using assms by (simp add: zdiv_zmult2_eq)
  then have "(a * b) * (w div (a * b)) + a * ((w div a) mod b) =
      a * (b * ((w div a) div b) + (w div a) mod b)"
    by (simp only: factor_out)
  also have "b * ((w div a) div b) + (w div a) mod b = w div a"
    by (rule mult_div_mod_eq)
  finally show ?thesis
    by simp
qed

lemma within_day_parts:
  fixes w :: int
  shows "w = 3600000 * (w div 3600000) + 60000 * ((w div 60000) mod 60) +
    1000 * ((w div 1000) mod 60) + w mod 1000"
proof -
  have a: "w = (60000 * 60) * (w div (60000 * 60)) + 60000 * ((w div 60000) mod 60) + w mod 60000"
    by (rule split_div_mod) simp_all
  have b: "w mod 60000 = (1000 * 60) * ((w mod 60000) div (1000 * 60)) +
      1000 * (((w mod 60000) div 1000) mod 60) + (w mod 60000) mod 1000"
    by (rule split_div_mod) simp_all
  have c: "(w mod 60000) div (1000 * 60) = 0"
    by simp
  have d: "(w mod 60000) mod 1000 = w mod 1000"
    by (rule mod_mod_cancel) simp
  have e: "((w mod 60000) div 1000) mod 60 = (w div 1000) mod 60"
  proof -
    have "w mod (1000 * 60) = 1000 * ((w div 1000) mod 60) + w mod 1000"
      by (rule zmod_zmult2_eq) simp
    then have "(w mod 60000) div 1000 = (1000 * ((w div 1000) mod 60) + w mod 1000) div 1000"
      by simp
    also have "\<dots> = (w div 1000) mod 60 + (w mod 1000) div 1000"
      by (subst div_mult_self4) simp_all
    also have "\<dots> = (w div 1000) mod 60"
      by simp
    finally show ?thesis
      by simp
  qed
  show ?thesis
    using a b unfolding c d e by simp
qed

lemma TimeWithinDay_bounds: "0 \<le> TimeWithinDay t" "TimeWithinDay t < msPerDay"
  by (simp_all add: TimeWithinDay_def msPerDay_def)

lemma time_value_parts:
  "t = MakeDate (Day t)
     (MakeTime (int (HourFromTime t)) (int (MinFromTime t)) (int (SecFromTime t)) (int (msFromTime t)))"
proof -
  let ?w = "TimeWithinDay t"
  have w: "0 \<le> ?w" by (rule TimeWithinDay_bounds)
  have h: "int (HourFromTime t) = ?w div 3600000"
    using w by (simp add: HourFromTime_def msPerHour_def pos_imp_zdiv_nonneg_iff)
  have m: "int (MinFromTime t) = (?w div 60000) mod 60"
    by (simp add: MinFromTime_def)
  have s: "int (SecFromTime t) = (?w div 1000) mod 60"
    by (simp add: SecFromTime_def)
  have ms: "int (msFromTime t) = ?w mod 1000"
    by (simp add: msFromTime_def)
  have "t = Day t * msPerDay + ?w"
    by (simp add: Day_def TimeWithinDay_def)
  also have "?w = 3600000 * (?w div 3600000) + 60000 * ((?w div 60000) mod 60) +
      1000 * ((?w div 1000) mod 60) + ?w mod 1000"
    by (rule within_day_parts)
  finally show ?thesis
    unfolding MakeDate_def MakeTime_def h m s ms msPerHour_def by (simp add: mult.commute)
qed

lemma setHours_next: "setHours (getHours t + 1) t = t + msPerHour"
proof -
  have "setHours (getHours t + 1) t =
      MakeDate (Day t)
        (MakeTime (int (HourFromTime t)) (int (MinFromTime t)) (int (SecFromTime t)) (int (msFromTime t)))
      + msPerHour"
    by (simp add: setHours_def getHours_def MakeDate_def MakeTime_def algebra_simps)
  then show ?thesis
    using time_value_parts [of t] by simp
qed

lemma hour_of_time: "Day t * msPerDay + int (HourFromTime t) * msPerHour = msPerHour * (t div msPerHour)"
proof -
  have d: "msPerDay = msPerHour * 24"
    by (simp add: msPerDay_def msPerHour_def)
  have w: "0 \<le> TimeWithinDay t" by (rule TimeWithinDay_bounds)
  have h: "int (HourFromTime t) = (t mod (msPerHour * 24)) div msPerHour"
    using w by (simp add: HourFromTime_def TimeWithinDay_def d pos_imp_zdiv_nonneg_iff msPerHour_def)
  have p: "0 < msPerHour" by (simp add: msPerHour_def)
  have "t mod (msPerHour * 24) = msPerHour * ((t div msPerHour) mod 24) + t mod msPerHour"
    by (rule zmod_zmult2_eq) simp
  then have "(t mod (msPerHour * 24)) div msPerHour =
      (msPerHour * ((t div msPerHour) mod 24) + t mod msPerHour) div msPerHour"
    by simp
  also have "\<dots> = (t div msPerHour) mod 24 + (t mod msPerHour) div msPerHour"
    using p by (subst div_mult_self4) simp_all
  also have "(t mod msPerHour) div msPerHour = 0"
    using p by simp
  finally have h': "int (HourFromTime t) = (t div msPerHour) mod 24"
    using h by simp
  have "Day t = (t div msPerHour) div 24"
    unfolding Day_def d using p by (simp add: zdiv_zmult2_eq)
  then have "Day t * msPerDay + int (HourFromTime t) * msPerHour =
      (msPerHour * 24) * ((t div msPerHour) div 24) + msPerHour * ((t div msPerHour) mod 24)"
    unfolding h' d by (simp only: mult.commute)
  also have "\<dots> = msPerHour * (24 * ((t div msPerHour) div 24) + (t div msPerHour) mod 24)"
    by (rule factor_out)
  also have "24 * ((t div msPerHour) div 24) + (t div msPerHour) mod 24 = t div msPerHour"
    by (rule mult_div_mod_eq)
  finally show ?thesis .
qed

lemma setMinutes_floor: "setMinutes 0 0 0 t = t - t mod msPerHour"
proof -
  have "setMinutes 0 0 0 t = msPerHour * (t div msPerHour)"
    using hour_of_time [of t] by (simp add: setMinutes_def MakeDate_def MakeTime_def)
  then show ?thesis
    by (simp add: minus_mod_eq_mult_div [symmetric])
qed


subsection \<open>Strings\<close>

definition is_digit :: "char \<Rightarrow> bool" where
  "is_digit c = (48 \<le> (of_char c :: nat) \<and> (of_char c :: nat) \<le> 57)"

text \<open>\<open>String.prototype.toLowerCase\<close> on code units below 256: the letters A to Z, and the
  capital letters U+00C0 to U+00DE except the multiplication sign U+00D7.\<close>

definition lower_char :: "char \<Rightarrow> char" where
  "lower_char c =
     (let n = of_char c :: nat
      in if (65 \<le> n \<and> n \<le> 90) \<or> (192 \<le> n \<and> n \<le> 222 \<and> n \<noteq> 215) then char_of (n + 32) else c)"

definition toLowerCase :: "string \<Rightarrow> string" where
  "toLowerCase s = map lower_char s"

subsection \<open>Plain objects used as dictionaries\<close>

text \<open>
  The values that \<open>conceptCounts[k]\<close> can read or hold. \<open>JObj s\<close> is an object or a
  function whose conversion to a string is \<open>s\<close>.
\<close>

datatype jsval = JUndefined | JNaN | JNum nat | JStr string | JObj string

text \<open>An object literal \<open>{}\<close>: its own properties in creation order. Its prototype is
  \<open>Object.prototype\<close>.\<close>

type_synonym jsobject = "(string \<times> jsval) list"

definition Object_prototype_methods :: "string list" where
  "Object_prototype_methods =
     [''__defineGetter__'', ''__defineSetter__'', ''hasOwnProperty'', ''__lookupGetter__'',
      ''__lookupSetter__'', ''isPrototypeOf'', ''propertyIsEnumerable'', ''toString'',
      ''valueOf'', ''toLocaleString'']"

text \<open>What a property read finds on \<open>Object.prototype\<close>.\<close>

definition Object_prototype :: "string \<Rightarrow> jsval" where
  "Object_prototype k =
     (if k = ''__proto__'' then JObj ''[object Object]''
      else if k = ''constructor'' then JObj ''function Object() { [native code] }''
      else if k \<in> set Object_prototype_methods then JObj (''function '' @ k @ ''() { [native code] }'')
      else JUndefined)"

text \<open>\<open>obj[k]\<close>: an own property, else the inherited one.\<close>

definition obj_get :: "jsobject \<Rightarrow> string \<Rightarrow> jsval" where
  "obj_get obj k = (case map_of obj k of Some v \<Rightarrow> v | None \<Rightarrow> Object_prototype k)"

text \<open>\<open>obj[k] = v\<close> for a primitive \<open>v\<close>: an own property keeps its place; the setter of
  \<open>__proto__\<close> ignores a primitive; any other key becomes a new own property, created last.\<close>

definition obj_set :: "jsobject \<Rightarrow> string \<Rightarrow> jsval \<Rightarrow> jsobject" where
  "obj_set obj k v =
     (if map_of obj k \<noteq> None then map (\<lambda>(k', v'). if k' = k then (k', v) else (k', v')) obj
      else if k = ''__proto__'' then obj
      else obj @ [(k, v)])"

definition truthy :: "jsval \<Rightarrow> bool" where
  "truthy v = (case v of JUndefined \<Rightarrow> False | JNaN \<Rightarrow> False | JNum n \<Rightarrow> n \<noteq> 0
     | JStr s \<Rightarrow> s \<noteq> [] | JObj s \<Rightarrow> True)"

definition js_or :: "jsval \<Rightarrow> jsval \<Rightarrow> jsval" where
  "js_or a b = (if truthy a then a else b)"

text \<open>\<open>v + 1\<close>: addition on numbers, concatenation with \<open>"1"\<close> otherwise.\<close>

fun js_plus_one :: "jsval \<Rightarrow> jsval" where
  "js_plus_one (JNum n) = JNum (n + 1)"
| "js_plus_one (JStr s) = JStr (s @ ''1'')"
| "js_plus_one (JObj s) = JStr (s @ ''1'')"
| "js_plus_one JUndefined = JNaN"
| "js_plus_one JNaN = JNaN"

definition decimal_value :: "string \<Rightarrow> int" where
  "decimal_value s = foldl (\<lambda>n c. 10 * n + (of_char c - 48)) 0 s"

text \<open>An array index: the canonical decimal form of an integer from 0 to \<open>2^32 - 2\<close>.\<close>

definition is_array_index :: "string \<Rightarrow> bool" where
  "is_array_index k =
     (k \<noteq> [] \<and> list_all is_digit k \<and> (k = ''0'' \<or> hd k \<noteq> CHR ''0'') \<and>
      decimal_value k \<le> 4294967294)"

text \<open>\<open>Object.entries(obj)\<close>: array indices in ascending numeric order, then the other
  keys in creation order.\<close>

definition Object_entries :: "jsobject \<Rightarrow> (string \<times> jsval) list" where
  "Object_entries obj =
     sort_key (\<lambda>(k, v). decimal_value k) (filter (\<lambda>(k, v). is_array_index k) obj) @
     filter (\<lambda>(k, v). \<not> is_array_index k) obj"

text \<open>
  \<open>Array.prototype.sort(cmp)\<close>, a stable sort: \<open>x\<close> moves behind \<open>y\<close> only when
  \<open>cmp(x, y) > 0\<close>. A comparator result of \<open>NaN\<close> (here \<open>None\<close>) counts as \<open>0\<close>. When the
  comparator is not a consistent ordering the language leaves the order to the engine;
  the insertion order below is then one possible outcome.
\<close>

fun insert_sorted :: "('a \<Rightarrow> 'a \<Rightarrow> int option) \<Rightarrow> 'a \<Rightarrow> 'a list \<Rightarrow> 'a list" where
  "insert_sorted cmp x [] = [x]"
| "insert_sorted cmp x (y # ys) =
     (if (case cmp x y of Some d \<Rightarrow> 0 < d | None \<Rightarrow> False)
      then y # insert_sorted cmp x ys else x # y # ys)"

definition Array_sort :: "('a \<Rightarrow> 'a \<Rightarrow> int option) \<Rightarrow> 'a list \<Rightarrow> 'a list" where
  "Array_sort cmp xs = foldr (insert_sorted cmp) xs []"

text \<open>\<open>a.localeCompare(b)\<close>, read as the comparison of code units (the strings compared
  in the worker are timestamps of one shape, made of digits and fixed punctuation).\<close>

definition localeCompare :: "string \<Rightarrow> string \<Rightarrow> int option" where
  "localeCompare a b = Some (if a < b then - 1 else if a = b then 0 else 1)"

section \<open>Classification outcomes\<close>

record 'n Scores =
  happiness :: 'n
  sadness :: 'n
  anger :: 'n
  fear :: 'n
  surprise :: 'n
  disgust :: 'n

record 'n SentimentOk = "'n Scores" +
  concepts :: "string list"

text \<open>\<open>SentimentResult\<close>: the scores with the concepts, or \<open>{ error: string | null }\<close>.\<close>

datatype 'n SentimentResult = Success "'n SentimentOk" | Failure "string option"

section \<open>The classifier's reply parser (\<open>parseSentimentResponse\<close>)\<close>

text \<open>The class \<open>\s\<close> and the line terminators, among the code units below 256.\<close>

definition is_space :: "char \<Rightarrow> bool" where
  "is_space c = (of_char c \<in> set [9, 10, 11, 12, 13, 32, 160 :: nat])"

definition is_line_terminator :: "char \<Rightarrow> bool" where
  "is_line_terminator c = (of_char c \<in> set [10, 13 :: nat])"

text \<open>The class \<open>[\d.]\<close>.\<close>

definition is_score_char :: "char \<Rightarrow> bool" where
  "is_score_char c = (is_digit c \<or> c = CHR ''.'')"

text \<open>
  \<open>content.match(re)\<close> for a regular expression without flags: the leftmost match. \<open>anchored\<close> is
  the match anchored at the start of its argument; it is tried at every position from
  left to right, the end of the string included.
\<close>

fun regex_first :: "(string \<Rightarrow> 'a option) \<Rightarrow> string \<Rightarrow> 'a option" where
  "regex_first anchored [] = anchored []"
| "regex_first anchored (c # s) =
     (case anchored (c # s) of Some m \<Rightarrow> Some m | None \<Rightarrow> regex_first anchored s)"

text \<open>
  \<open>/label\s*([\d.]+)/\<close> anchored: the capture group. The two classes are disjoint, so the
  greedy \<open>\s*\<close> never gives a character back.
\<close>

definition score_at :: "string \<Rightarrow> string \<Rightarrow> string option" where
  "score_at label s =
     (if prefix label s then
        let num = takeWhile is_score_char (dropWhile is_space (drop (length label) s))
        in if num = [] then None else Some num
      else None)"

text \<open>
  \<open>/concepts:\s*(.+)/\<close> anchored: the capture group. \<open>.\<close> is any character but a line
  terminator. After the longest run of white space, \<open>.+\<close> takes the rest of the line; when
  the string ends with that run, \<open>\s*\<close> gives characters back until \<open>.+\<close> finds one that is
  not a line terminator, which is then the last such character of the run.
\<close>

definition concepts_at :: "string \<Rightarrow> string option" where
  "concepts_at s =
     (if prefix ''concepts:'' s then
        let after = drop (length ''concepts:'') s;
            ws = takeWhile is_space after;
            rest = dropWhile is_space after
        in if rest \<noteq> [] then Some (takeWhile (\<lambda>c. \<not> is_line_terminator c) rest)
           else (case filter (\<lambda>c. \<not> is_line_terminator c) ws of
                   [] \<Rightarrow> None
                 | x # xs \<Rightarrow> Some [last (x # xs)])
      else None)"

definition trim :: "string \<Rightarrow> string" where
  "trim s = rev (dropWhile is_space (rev (dropWhile is_space s)))"

text \<open>\<open>s.split(sep)\<close> for a separator of one character.\<close>

fun split :: "char \<Rightarrow> string \<Rightarrow> string list" where
  "split sep [] = [[]]"
| "split sep (c # s) =
     (if c = sep then [] # split sep s
      else (case split sep s of w # ws \<Rightarrow> (c # w) # ws | [] \<Rightarrow> [[c]]))"

text \<open>The \<open>try\<close> block cannot throw on a string, so the \<open>catch\<close> branch has no case.\<close>

definition parseSentimentResponse :: "'n arithmetic \<Rightarrow> string \<Rightarrow> 'n SentimentResult" where
  "parseSentimentResponse ar content =
     (let happinessMatch = regex_first (score_at ''happiness:'') content;
          sadnessMatch = regex_first (score_at ''sadness:'') content;
          angerMatch = regex_first (score_at ''anger:'') content;
          fearMatch = regex_first (score_at ''fear:'') content;
          surpriseMatch = regex_first (score_at ''surprise:'') content;
          disgustMatch = regex_first (score_at ''disgust:'') content;
          conceptsMatch = regex_first concepts_at content
      in if happinessMatch = None \<or> sadnessMatch = None \<or> angerMatch = None \<or>
            fearMatch = None \<or> surpriseMatch = None \<or> disgustMatch = None \<or>
            conceptsMatch = None
         then Failure (Some content)
         else Success
           \<lparr>happiness = parseFloat ar (the happinessMatch),
            sadness = parseFloat ar (the sadnessMatch),
            anger = parseFloat ar (the angerMatch),
            fear = parseFloat ar (the fearMatch),
            surprise = parseFloat ar (the surpriseMatch),
            disgust = parseFloat ar (the disgustMatch),
            concepts = filter (\<lambda>c. 0 < length c) (map trim (split CHR '','' (trim (the conceptsMatch))))\<rparr>)"

section \<open>The stream collector (\<open>connectToFirehose\<close>)\<close>

record FirehosePost =
  text_of :: string
  did :: string
  collection :: string
  rkey :: string

text \<open>\<open>eventLimit\<close> and \<open>durationMs\<close> are optional; \<open>0\<close> stands for an absent (or zero, which
  the code also takes as absent) value.\<close>

record FirehoseOptions =
  durationMs :: nat
  eventLimit :: nat

text \<open>
  What the event loop hands to the callbacks registered by \<open>connectToFirehose\<close>, one at a
  time: a post creation, a creation event whose fields cannot be read (the handler throws
  before it counts), a socket error, the close of the socket, and the timer.
\<close>

datatype stream_event = Create FirehosePost | Unreadable | SocketError | SocketClose | TimerFired

text \<open>The variables of the closure: the counter, the flag, the posts passed to \<open>onPost\<close> so
  far and the number of calls of \<open>onError\<close>. The promise is resolved when \<open>isClosed\<close> is set.\<close>

record Collector =
  eventCount :: nat
  isClosed :: bool
  delivered :: "FirehosePost list"
  errorCalls :: nat

definition Collector_init :: Collector where
  "Collector_init = \<lparr>eventCount = 0, isClosed = False, delivered = [], errorCalls = 0\<rparr>"

definition cleanup :: "Collector \<Rightarrow> Collector" where
  "cleanup st = (if isClosed st then st else st\<lparr>isClosed := True\<rparr>)"

fun on_event :: "FirehoseOptions \<Rightarrow> Collector \<Rightarrow> stream_event \<Rightarrow> Collector" where
  "on_event options st (Create post) =
     (let st' = st\<lparr>eventCount := eventCount st + 1\<rparr>
      in if eventLimit options \<noteq> 0 \<and> eventLimit options < eventCount st' then cleanup st'
         else st'\<lparr>delivered := delivered st' @ [post]\<rparr>)"
| "on_event options st Unreadable = st\<lparr>errorCalls := errorCalls st + 1\<rparr>"
| "on_event options st SocketError = st\<lparr>errorCalls := errorCalls st + 1\<rparr>"
| "on_event options st SocketClose = cleanup st"
| "on_event options st TimerFired = (if durationMs options \<noteq> 0 then cleanup st else st)"

text \<open>The collector after a sequence of events.\<close>

definition connectToFirehose :: "FirehoseOptions \<Rightarrow> stream_event list \<Rightarrow> Collector" where
  "connectToFirehose options events = foldl (on_event options) Collector_init events"

text \<open>Phase 1 of \<open>updateMeters\<close>: \<open>onPost\<close> pushes to \<open>collectedPosts\<close>, the limit is 2000 and
  no duration is given.\<close>

definition collectedPosts :: "stream_event list \<Rightarrow> FirehosePost list" where
  "collectedPosts events = delivered (connectToFirehose \<lparr>durationMs = 0, eventLimit = 2000\<rparr> events)"

section \<open>The aggregator (\<open>updateMeters\<close>)\<close>

text \<open>The variables of the aggregation loop.\<close>

record 'n Tally =
  messageCount_n :: nat
  failureCount :: nat
  noSentimentCount :: nat
  sentimentSums :: "'n Scores"
  conceptCounts :: jsobject

definition Tally_init :: "'n arithmetic \<Rightarrow> 'n Tally" where
  "Tally_init ar =
     \<lparr>messageCount_n = 0, failureCount = 0, noSentimentCount = 0,
      sentimentSums = \<lparr>happiness = num_zero ar, sadness = num_zero ar, anger = num_zero ar,
        fear = num_zero ar, surprise = num_zero ar, disgust = num_zero ar\<rparr>,
      conceptCounts = []\<rparr>"

text \<open>\<open>conceptCounts[lowerConcept] = (conceptCounts[lowerConcept] || 0) + 1\<close>\<close>

definition count_concept :: "jsobject \<Rightarrow> string \<Rightarrow> jsobject" where
  "count_concept counts concept =
     (let lowerConcept = toLowerCase concept
      in obj_set counts lowerConcept (js_plus_one (js_or (obj_get counts lowerConcept) (JNum 0))))"

definition add_scores :: "'n arithmetic \<Rightarrow> 'n Scores \<Rightarrow> 'n SentimentOk \<Rightarrow> 'n Scores" where
  "add_scores ar acc result =
     \<lparr>happiness = num_add ar (happiness acc) (happiness result),
      sadness = num_add ar (sadness acc) (sadness result),
      anger = num_add ar (anger acc) (anger result),
      fear = num_add ar (fear acc) (fear result),
      surprise = num_add ar (surprise acc) (surprise result),
      disgust = num_add ar (disgust acc) (disgust result)\<rparr>"

text \<open>One round of \<open>for (const result of results)\<close>.\<close>

fun tally_step :: "'n arithmetic \<Rightarrow> 'n Tally \<Rightarrow> 'n SentimentResult \<Rightarrow> 'n Tally" where
  "tally_step ar t (Success result) =
     t\<lparr>messageCount_n := messageCount_n t + 1,
       sentimentSums := add_scores ar (sentimentSums t) result,
       conceptCounts := foldl count_concept (conceptCounts t) (concepts result)\<rparr>"
| "tally_step ar t (Failure error) =
     (if error \<noteq> Some ''NO SENTIMENT'' then t\<lparr>failureCount := failureCount t + 1\<rparr>
      else t\<lparr>noSentimentCount := noSentimentCount t + 1\<rparr>)"

definition tally :: "'n arithmetic \<Rightarrow> 'n SentimentResult list \<Rightarrow> 'n Tally" where
  "tally ar results = foldl (tally_step ar) (Tally_init ar) results"

text \<open>The metadata stored with a key: the count and the six averages.\<close>

record 'n Sentiments =
  messageCount :: nat
  happinessAvg :: 'n
  sadnessAvg :: 'n
  angerAvg :: 'n
  fearAvg :: 'n
  surpriseAvg :: 'n
  disgustAvg :: 'n

text \<open>\<open>{...metadata, timestamp}\<close>, what a range query returns for a key.\<close>

record 'n Meter = "'n Sentiments" +
  timestamp :: string

record 'n SentimentData = "'n Meter" +
  topConcepts :: jsobject

text \<open>\<open>(a, b) => b[1] - a[1]\<close>. A count that is not a number is a string that starts
  with \<open>function\<close>; it converts to \<open>NaN\<close>.\<close>

definition compare_counts :: "string \<times> jsval \<Rightarrow> string \<times> jsval \<Rightarrow> int option" where
  "compare_counts a b =
     (case (snd b, snd a) of (JNum m, JNum n) \<Rightarrow> Some (int m - int n) | _ \<Rightarrow> None)"

text \<open>
  \<open>updateMeters\<close> from the aggregation loop on: \<open>results\<close> are the outcomes of
  \<open>analyzeSentiment\<close> for the collected posts, in order, and \<open>now\<close> is the clock read by
  \<open>new Date()\<close>. The division is reached only with a positive count.
\<close>

definition updateMeters ::
  "'n arithmetic \<Rightarrow> Date \<Rightarrow> 'n SentimentResult list \<Rightarrow> 'n SentimentData option" where
  "updateMeters ar now results =
     (let t = tally ar results; n = messageCount_n t
      in if 0 < n then
           let sortedConcepts = take 200 (Array_sort compare_counts (Object_entries (conceptCounts t)));
               top200Concepts = foldl (\<lambda>obj (concept, count). obj_set obj concept count) [] sortedConcepts
           in Some \<lparr>messageCount = n,
                    happinessAvg = num_div ar (happiness (sentimentSums t)) n,
                    sadnessAvg = num_div ar (sadness (sentimentSums t)) n,
                    angerAvg = num_div ar (anger (sentimentSums t)) n,
                    fearAvg = num_div ar (fear (sentimentSums t)) n,
                    surpriseAvg = num_div ar (surprise (sentimentSums t)) n,
                    disgustAvg = num_div ar (disgust (sentimentSums t)) n,
                    timestamp = toISOString now,
                    topConcepts = top200Concepts\<rparr>
         else None)"

section \<open>The store\<close>

text \<open>
  The key-value namespace is a service outside the repository. An entry has a value body
  and optional metadata; keys are unique. \<open>put\<close> replaces the entry of an existing key.
  The body written by the worker is the JSON text of \<open>topConcepts\<close>; the model keeps the
  object.
\<close>

record 'n StoredEntry =
  body :: jsobject
  metadata :: "'n Sentiments option"

record 'n KVNamespace =
  entries :: "(string \<times> 'n StoredEntry) list"
  page_limit :: nat

definition kv_put :: "'n KVNamespace \<Rightarrow> string \<Rightarrow> 'n StoredEntry \<Rightarrow> 'n KVNamespace" where
  "kv_put kv key e = kv\<lparr>entries := filter (\<lambda>(k, _). k \<noteq> key) (entries kv) @ [(key, e)]\<rparr>"

text \<open>\<open>refreshMeters\<close>: the effect on the namespace of one scheduled run.\<close>

definition refreshMeters ::
  "'n arithmetic \<Rightarrow> 'n KVNamespace \<Rightarrow> Date \<Rightarrow> 'n SentimentResult list \<Rightarrow> 'n KVNamespace" where
  "refreshMeters ar kv now results =
     (case updateMeters ar now results of
        Some data \<Rightarrow>
          kv_put kv (timestamp data)
            \<lparr>body = topConcepts data, metadata = Some (Sentiments.truncate data)\<rparr>
      | None \<Rightarrow> kv)"


text \<open>
  \<open>kv.list({prefix, cursor})\<close>: the keys that start with the prefix, in lexicographic order,
  one page at a time; a cursor is the number of keys already listed. A page has
  \<open>page_limit\<close> keys (at least one).
\<close>

record 'n ListKey =
  name :: string
  key_metadata :: "'n Sentiments option"

record 'n ListResult =
  keys :: "'n ListKey list"
  list_complete :: bool
  cursor :: "nat option"

definition kv_matching :: "'n KVNamespace \<Rightarrow> string \<Rightarrow> 'n ListKey list" where
  "kv_matching kv pre =
     map (\<lambda>(k, e). \<lparr>name = k, key_metadata = metadata e\<rparr>)
       (sort_key fst (filter (\<lambda>(k, e). prefix pre k) (entries kv)))"

definition kv_list :: "'n KVNamespace \<Rightarrow> string \<Rightarrow> nat option \<Rightarrow> 'n ListResult" where
  "kv_list kv pre cur =
     (let offset = (case cur of None \<Rightarrow> 0 | Some c \<Rightarrow> c);
          limit = max 1 (page_limit kv);
          complete = (length (kv_matching kv pre) \<le> offset + limit)
      in \<lparr>keys = take limit (drop offset (kv_matching kv pre)),
          list_complete = complete,
          cursor = (if complete then None else Some (offset + limit))\<rparr>)"

section \<open>The range query (\<open>getHistoricalMeters\<close>)\<close>

text \<open>The \<open>while (current <= end)\<close> loop of \<open>generateHourPrefixes\<close>.\<close>

function hour_prefixes :: "Date \<Rightarrow> Date \<Rightarrow> string list" where
  "hour_prefixes current end' =
     (if current \<le> end'
      then take 13 (toISOString current) # hour_prefixes (setHours (getHours current + 1) current) end'
      else [])"
  by pat_completeness auto
termination
  by (relation "measure (\<lambda>(current, end'). nat (end' + 1 - current))")
    (simp_all add: setHours_next msPerHour_def)

text \<open>\<open>generateHourPrefixes\<close> changes its two arguments; it returns the prefixes together
  with the new time values of \<open>start\<close> and \<open>end\<close>.\<close>

definition generateHourPrefixes :: "Date \<Rightarrow> Date \<Rightarrow> string list \<times> Date \<times> Date" where
  "generateHourPrefixes start end' =
     (let start1 = setMinutes 0 0 0 start; end1 = setMinutes 0 0 0 end'
      in (hour_prefixes start1 end1, start1, end1))"

text \<open>\<open>{...key.metadata, timestamp: key.name}\<close>\<close>

definition with_timestamp :: "'n Sentiments \<Rightarrow> string \<Rightarrow> 'n Meter" where
  "with_timestamp m k =
     \<lparr>messageCount = messageCount m, happinessAvg = happinessAvg m, sadnessAvg = sadnessAvg m,
      angerAvg = angerAvg m, fearAvg = fearAvg m, surpriseAvg = surpriseAvg m,
      disgustAvg = disgustAvg m, timestamp = k\<rparr>"

text \<open>The keys of one page that pass the filter, as records.\<close>

definition page_results :: "string \<Rightarrow> string \<Rightarrow> 'n ListKey list \<Rightarrow> 'n Meter list" where
  "page_results startIso endIso ks =
     concat (map (\<lambda>key. if startIso \<le> name key \<and> name key \<le> endIso \<and> key_metadata key \<noteq> None
                         then [with_timestamp (the (key_metadata key)) (name key)] else []) ks)"

text \<open>The \<open>while (hasMore)\<close> loop for one prefix, from a cursor on.\<close>

function list_pages ::
  "'n KVNamespace \<Rightarrow> string \<Rightarrow> string \<Rightarrow> string \<Rightarrow> nat option \<Rightarrow> 'n Meter list" where
  "list_pages kv startIso endIso pre cur =
     (let listResult = kv_list kv pre cur;
          found = page_results startIso endIso (keys listResult)
      in if list_complete listResult then found
         else found @ list_pages kv startIso endIso pre (cursor listResult))"
  by pat_completeness auto
termination
proof (relation "measure (\<lambda>(kv, startIso, endIso, pre, cur).
    length (kv_matching kv pre) - (case cur of None \<Rightarrow> 0 | Some c \<Rightarrow> c))")
  show "wf (measure (\<lambda>(kv, startIso, endIso, pre, cur).
    length (kv_matching kv pre) - (case cur of None \<Rightarrow> 0 | Some c \<Rightarrow> c)))"
    by simp
next
  fix kv :: "'n KVNamespace" and startIso endIso pre :: string and cur :: "nat option"
    and listResult :: "'n ListResult"
  assume "listResult = kv_list kv pre cur" and "\<not> list_complete listResult"
  then show "((kv, startIso, endIso, pre, cursor listResult), (kv, startIso, endIso, pre, cur))
    \<in> measure (\<lambda>(kv, startIso, endIso, pre, cur).
      length (kv_matching kv pre) - (case cur of None \<Rightarrow> 0 | Some c \<Rightarrow> c))"
    by (auto simp: kv_list_def Let_def split: option.splits)
qed

text \<open>\<open>getHistoricalMeters\<close>: the sorted records, and the time values of the caller's \<open>start\<close>
  and \<open>end\<close> after the call.\<close>

definition getHistoricalMeters ::
  "'n KVNamespace \<Rightarrow> Date \<Rightarrow> Date \<Rightarrow> 'n Meter list \<times> Date \<times> Date" where
  "getHistoricalMeters kv start end' =
     (let startIso = toISOString start;
          endIso = toISOString end'
      in case generateHourPrefixes start end' of
           (prefixes', start1, end1) \<Rightarrow>
             (Array_sort (\<lambda>a b. localeCompare (timestamp a) (timestamp b))
                (concat (map (\<lambda>pre. list_pages kv startIso endIso pre None) prefixes')),
              start1, end1))"

section \<open>Vocabulary of the properties\<close>

text \<open>The \<open>Success\<close> outcomes of a batch, in order.\<close>

fun successes :: "'n SentimentResult list \<Rightarrow> 'n SentimentOk list" where
  "successes [] = []"
| "successes (Success r # rs) = r # successes rs"
| "successes (Failure e # rs) = successes rs"

text \<open>The mean of a list of scores as the number operations compute it: the scores added to
  \<open>0\<close> from left to right, and the sum divided by their count.\<close>

definition mean_of :: "'n arithmetic \<Rightarrow> 'n list \<Rightarrow> 'n" where
  "mean_of ar xs = num_div ar (foldl (num_add ar) (num_zero ar) xs) (length xs)"

text \<open>The number of failures of a batch whose reason satisfies \<open>P\<close>.\<close>

definition failures_with :: "(string option \<Rightarrow> bool) \<Rightarrow> 'n SentimentResult list \<Rightarrow> nat" where
  "failures_with P results =
     length (filter (\<lambda>r. case r of Success _ \<Rightarrow> False | Failure e \<Rightarrow> P e) results)"

text \<open>Lines joined by line feeds, as the lines of a reply are.\<close>

fun join_lines :: "string list \<Rightarrow> string" where
  "join_lines [] = []"
| "join_lines [x] = x"
| "join_lines (x # y # ys) = x @ CHR 0x0A # join_lines (y # ys)"

text \<open>A score text: a non-empty run of digits and dots.\<close>

definition score_text :: "string \<Rightarrow> bool" where
  "score_text v = (v \<noteq> [] \<and> list_all is_score_char v)"

text \<open>A concepts text: one line that starts with a visible character and has no colon.\<close>

definition concept_text :: "string \<Rightarrow> bool" where
  "concept_text c =
     (c \<noteq> [] \<and> \<not> is_space (hd c) \<and> list_all (\<lambda>x. \<not> is_line_terminator x \<and> x \<noteq> CHR '':'') c)"

text \<open>The seven labels, and a reply given by its labelled texts in the order of its lines.\<close>

definition all_labels :: "string list" where
  "all_labels = [''happiness:'', ''sadness:'', ''anger:'', ''fear:'', ''surprise:'', ''disgust:'', ''concepts:'']"

definition reply_fields ::
  "string \<Rightarrow> string \<Rightarrow> string \<Rightarrow> string \<Rightarrow> string \<Rightarrow> string \<Rightarrow> string \<Rightarrow> (string \<times> string) list" where
  "reply_fields h s a f su d c =
     [(''happiness:'', h), (''sadness:'', s), (''anger:'', a), (''fear:'', f), (''surprise:'', su),
      (''disgust:'', d), (''concepts:'', c)]"

definition reply_of :: "(string \<times> string) list \<Rightarrow> string" where
  "reply_of fs = join_lines (map (\<lambda>(label, text). label @ text) fs)"

text \<open>A field of a reply at the start of a string: the label, then white space or none,
  then a character of the kind that starts the value.\<close>

definition field_at :: "string \<Rightarrow> (char \<Rightarrow> bool) \<Rightarrow> string \<Rightarrow> bool" where
  "field_at l starts s =
     (prefix l s \<and>
      (let after = drop (length l) s
       in list_ex starts (takeWhile is_space after @ take 1 (dropWhile is_space after))))"

text \<open>A reply has a field when the field stands at one of its positions.\<close>

definition has_field :: "string \<Rightarrow> (char \<Rightarrow> bool) \<Rightarrow> string \<Rightarrow> bool" where
  "has_field l starts content = list_ex (field_at l starts) (suffixes content)"

text \<open>The six score labels, and a reply that has the seven fields: each score label with a
  digit or a dot, \<open>concepts:\<close> with a character that is not a line terminator.\<close>

definition score_labels :: "string list" where
  "score_labels = [''happiness:'', ''sadness:'', ''anger:'', ''fear:'', ''surprise:'', ''disgust:'']"

definition has_all_fields :: "string \<Rightarrow> bool" where
  "has_all_fields content =
     (list_all (\<lambda>l. has_field l is_score_char content) score_labels \<and>
      has_field ''concepts:'' (\<lambda>c. \<not> is_line_terminator c) content)"

text \<open>
  \<open>x\<close> is the score read for the label \<open>l\<close>: \<open>parseFloat\<close> of the run \<open>v\<close> of digits and dots that
  follows the label and its white space, where the run is as long as it can be and no field
  of \<open>l\<close> starts further left in the reply.
\<close>

definition score_read :: "'n arithmetic \<Rightarrow> string \<Rightarrow> string \<Rightarrow> 'n \<Rightarrow> bool" where
  "score_read ar l content x =
     (\<exists>pre ws v rest. content = pre @ l @ ws @ v @ rest \<and> list_all is_space ws \<and> score_text v \<and>
        (rest = [] \<or> \<not> is_score_char (hd rest)) \<and>
        (\<forall>n < length pre. \<not> field_at l is_score_char (drop n content)) \<and>
        x = parseFloat ar v)"

text \<open>Every occurrence of the label in the reply is directly followed by a minus sign.\<close>

definition minus_after :: "string \<Rightarrow> string \<Rightarrow> bool" where
  "minus_after l content =
     list_all (\<lambda>s. prefix l s \<longrightarrow> prefix (l @ ''-'') s) (suffixes content)"

text \<open>The concepts of the successes of a batch, lower-cased, in the order they are counted.\<close>

definition batch_concepts :: "'n SentimentResult list \<Rightarrow> string list" where
  "batch_concepts results = map toLowerCase (concat (map concepts (successes results)))"

text \<open>The distinct elements of a list in the order of their first occurrence.\<close>

definition first_seen :: "'a list \<Rightarrow> 'a list" where
  "first_seen ks = rev (remdups (rev ks))"

text \<open>A key that \<open>Object.prototype\<close> does not have (every key but \<open>constructor\<close> and
  \<open>__proto__\<close>, among lower-cased keys).\<close>

definition plain_key :: "string \<Rightarrow> bool" where
  "plain_key k = (Object_prototype k = JUndefined)"

text \<open>The frequency table of a list of keys: every distinct key with its number of occurrences.\<close>

definition count_table :: "string list \<Rightarrow> jsobject" where
  "count_table ks = map (\<lambda>k. (k, JNum (count_list ks k))) (first_seen ks)"

text \<open>The order in which an object lists its keys, and the ranking by count (descending,
  stable) of the keys in that order.\<close>

definition enumeration_order :: "string list \<Rightarrow> string list" where
  "enumeration_order ks =
     sort_key decimal_value (filter is_array_index (first_seen ks)) @
     filter (\<lambda>k. \<not> is_array_index k) (first_seen ks)"

definition ranked :: "string list \<Rightarrow> string list" where
  "ranked ks = sort_key (\<lambda>k. - int (count_list ks k)) (enumeration_order ks)"

text \<open>The sum of the numeric counts of an object (a value that is not a number adds nothing).\<close>

primrec numeric_count :: "jsval \<Rightarrow> nat" where
  "numeric_count JUndefined = 0"
| "numeric_count JNaN = 0"
| "numeric_count (JNum n) = n"
| "numeric_count (JStr s) = 0"
| "numeric_count (JObj s) = 0"

definition total_count :: "jsobject \<Rightarrow> nat" where
  "total_count obj = sum_list (map (\<lambda>(k, v). numeric_count v) obj)"

text \<open>The posts of the creation events of a sequence of events, in order.\<close>

fun created :: "stream_event list \<Rightarrow> FirehosePost list" where
  "created [] = []"
| "created (Create post # es) = post # created es"
| "created (e # es) = created es"

(*PROPS*)
section \<open>Properties\<close>

lemma tally_messageCount:
  "messageCount_n (foldl (tally_step ar) t rs) = messageCount_n t + length (successes rs)"
  by (induction rs arbitrary: t rule: successes.induct) simp_all

lemma tally_sentimentSums:
  "sentimentSums (foldl (tally_step ar) t rs) = foldl (add_scores ar) (sentimentSums t) (successes rs)"
  by (induction rs arbitrary: t rule: successes.induct) simp_all

lemma foldl_add_scores:
  "foldl (add_scores ar) s rs =
     \<lparr>happiness = foldl (num_add ar) (happiness s) (map happiness rs),
      sadness = foldl (num_add ar) (sadness s) (map sadness rs),
      anger = foldl (num_add ar) (anger s) (map anger rs),
      fear = foldl (num_add ar) (fear s) (map fear rs),
      surprise = foldl (num_add ar) (surprise s) (map surprise rs),
      disgust = foldl (num_add ar) (disgust s) (map disgust rs)\<rparr>"
  by (induction rs arbitrary: s) (simp_all add: add_scores_def)

text \<open>
  C2. A batch with at least one success yields a record whose \<open>messageCount\<close> is the
  number of successes and whose six averages are the means of the six scores over the
  successes alone, each computed as the worker's number operations compute it (the scores
  of the successes added to \<open>0\<close> in the order of the batch, the sum divided by the count
  of successes): the failures of the batch, their number and their places play no part.
\<close>

theorem averages_are_means_of_successes:
  assumes "successes results = ss" and "ss \<noteq> []"
  shows "\<exists>d. updateMeters ar now results = Some d \<and> messageCount d = length ss \<and>
    happinessAvg d = mean_of ar (map happiness ss) \<and>
    sadnessAvg d = mean_of ar (map sadness ss) \<and>
    angerAvg d = mean_of ar (map anger ss) \<and>
    fearAvg d = mean_of ar (map fear ss) \<and>
    surpriseAvg d = mean_of ar (map surprise ss) \<and>
    disgustAvg d = mean_of ar (map disgust ss)"
proof -
  have n: "messageCount_n (tally ar results) = length ss"
    using assms(1) by (simp add: tally_def tally_messageCount Tally_init_def)
  have s: "sentimentSums (tally ar results) = foldl (add_scores ar) (sentimentSums (Tally_init ar)) ss"
    using assms(1) by (simp add: tally_def tally_sentimentSums)
  have pos: "0 < length ss" using assms(2) by simp
  show ?thesis
    using pos by (simp add: updateMeters_def Let_def n s foldl_add_scores Tally_init_def mean_of_def)
qed

theorem averages_are_means_of_successes_witness:
  "\<exists>d. updateMeters symbolic 1735923600123
      [Success \<lparr>happiness = ParseFloat ''5'', sadness = ParseFloat ''1'', anger = ParseFloat ''0'',
         fear = ParseFloat ''0'', surprise = ParseFloat ''2'', disgust = ParseFloat ''0'',
         concepts = [''peace'']\<rparr>,
       Failure (Some ''NO SENTIMENT''),
       Success \<lparr>happiness = ParseFloat ''7'', sadness = ParseFloat ''2'', anger = ParseFloat ''0'',
         fear = ParseFloat ''0'', surprise = ParseFloat ''2'', disgust = ParseFloat ''0'',
         concepts = [''Peace'', ''war'']\<rparr>,
       Failure None] = Some d \<and>
    messageCount d = 2 \<and>
    happinessAvg d = Over (Plus (Plus Zero (ParseFloat ''5'')) (ParseFloat ''7'')) 2 \<and>
    sadnessAvg d = Over (Plus (Plus Zero (ParseFloat ''1'')) (ParseFloat ''2'')) 2 \<and>
    angerAvg d = Over (Plus (Plus Zero (ParseFloat ''0'')) (ParseFloat ''0'')) 2 \<and>
    fearAvg d = Over (Plus (Plus Zero (ParseFloat ''0'')) (ParseFloat ''0'')) 2 \<and>
    surpriseAvg d = Over (Plus (Plus Zero (ParseFloat ''2'')) (ParseFloat ''2'')) 2 \<and>
    disgustAvg d = Over (Plus (Plus Zero (ParseFloat ''0'')) (ParseFloat ''0'')) 2"
  using averages_are_means_of_successes [of
      "[Success \<lparr>happiness = ParseFloat ''5'', sadness = ParseFloat ''1'', anger = ParseFloat ''0'',
         fear = ParseFloat ''0'', surprise = ParseFloat ''2'', disgust = ParseFloat ''0'',
         concepts = [''peace'']\<rparr>,
       Failure (Some ''NO SENTIMENT''),
       Success \<lparr>happiness = ParseFloat ''7'', sadness = ParseFloat ''2'', anger = ParseFloat ''0'',
         fear = ParseFloat ''0'', surprise = ParseFloat ''2'', disgust = ParseFloat ''0'',
         concepts = [''Peace'', ''war'']\<rparr>,
       Failure None]"
      "[\<lparr>happiness = ParseFloat ''5'', sadness = ParseFloat ''1'', anger = ParseFloat ''0'',
         fear = ParseFloat ''0'', surprise = ParseFloat ''2'', disgust = ParseFloat ''0'',
         concepts = [''peace'']\<rparr>,
       \<lparr>happiness = ParseFloat ''7'', sadness = ParseFloat ''2'', anger = ParseFloat ''0'',
         fear = ParseFloat ''0'', surprise = ParseFloat ''2'', disgust = ParseFloat ''0'',
         concepts = [''Peace'', ''war'']\<rparr>]" symbolic 1735923600123]
  by (simp add: mean_of_def symbolic_def numeral_2_eq_2)

lemma no_success_tally:
  "successes results = [] \<Longrightarrow> messageCount_n (tally ar results) = 0"
  by (simp add: tally_def tally_messageCount Tally_init_def)

text \<open>
  C3. A batch without a success yields no record, and the scheduled run leaves the
  namespace as it was.
\<close>

theorem no_success_no_summary:
  assumes "successes results = []"
  shows "updateMeters ar now results = None \<and> refreshMeters ar kv now results = kv"
  using no_success_tally [OF assms] by (simp add: updateMeters_def refreshMeters_def)

theorem no_success_no_summary_witness:
  "successes [Failure (Some ''NO SENTIMENT''), Failure None,
      Failure (Some ''OpenRouter API error: 500'')] = ([] :: expression SentimentOk list) \<and>
   updateMeters symbolic 1735923600123 [Failure (Some ''NO SENTIMENT''), Failure None,
      Failure (Some ''OpenRouter API error: 500'')] = None \<and>
   refreshMeters symbolic \<lparr>entries = [], page_limit = 1000\<rparr> 1735923600123
     [Failure (Some ''NO SENTIMENT''), Failure None,
      Failure (Some ''OpenRouter API error: 500'')] = \<lparr>entries = [], page_limit = 1000\<rparr>"
  using no_success_no_summary [of "[Failure (Some ''NO SENTIMENT''), Failure None,
      Failure (Some ''OpenRouter API error: 500'')]" symbolic 1735923600123
      "\<lparr>entries = [], page_limit = 1000\<rparr>"]
  by simp



lemma tally_noSentimentCount:
  "noSentimentCount (foldl (tally_step ar) t rs) =
     noSentimentCount t + failures_with (\<lambda>e. e = Some ''NO SENTIMENT'') rs"
  by (induction rs arbitrary: t rule: successes.induct) (simp_all add: failures_with_def)

lemma tally_failureCount:
  "failureCount (foldl (tally_step ar) t rs) =
     failureCount t + failures_with (\<lambda>e. e \<noteq> Some ''NO SENTIMENT'') rs"
  by (induction rs arbitrary: t rule: successes.induct) (simp_all add: failures_with_def)

lemma parse_failure_reason:
  "parseSentimentResponse ar content = Failure e \<Longrightarrow> e = Some content"
  by (simp add: parseSentimentResponse_def Let_def split: if_splits)

lemma parse_NO_SENTIMENT: "parseSentimentResponse ar ''NO SENTIMENT'' = Failure (Some ''NO SENTIMENT'')"
  by (simp add: parseSentimentResponse_def Let_def score_at_def concepts_at_def)

text \<open>
  C6, as amended. The reply is not trimmed: the parser yields the failure with reason
  \<open>NO SENTIMENT\<close> for the reply that is exactly that literal and for no other reply. The
  aggregator counts a failure in \<open>noSentimentCount\<close> when its reason is that literal and in
  \<open>failureCount\<close> otherwise.
\<close>

theorem sentinel_only_exact_literal:
  "(parseSentimentResponse ar content = Failure (Some ''NO SENTIMENT'') \<longleftrightarrow> content = ''NO SENTIMENT'') \<and>
   noSentimentCount (tally ar results) = failures_with (\<lambda>e. e = Some ''NO SENTIMENT'') results \<and>
   failureCount (tally ar results) = failures_with (\<lambda>e. e \<noteq> Some ''NO SENTIMENT'') results"
proof -
  have "parseSentimentResponse ar content = Failure (Some ''NO SENTIMENT'') \<longleftrightarrow> content = ''NO SENTIMENT''"
    using parse_failure_reason [of ar content "Some ''NO SENTIMENT''"] parse_NO_SENTIMENT [of ar] by auto
  then show ?thesis
    by (simp add: tally_def tally_noSentimentCount tally_failureCount Tally_init_def)
qed

text \<open>
  C6 as stated fails: the literal followed by a line feed trims to the literal, yet its
  failure keeps the line feed in the reason and is counted as a true failure.
\<close>

theorem trimmed_literal_counterexample:
  "trim ''NO SENTIMENT\<newline>'' = ''NO SENTIMENT'' \<and>
   parseSentimentResponse symbolic ''NO SENTIMENT\<newline>'' = Failure (Some ''NO SENTIMENT\<newline>'') \<and>
   noSentimentCount (tally symbolic [parseSentimentResponse symbolic ''NO SENTIMENT\<newline>'']) = 0 \<and>
   failureCount (tally symbolic [parseSentimentResponse symbolic ''NO SENTIMENT\<newline>'']) = 1"
  by (simp add: trim_def is_space_def parseSentimentResponse_def Let_def score_at_def concepts_at_def
      tally_def Tally_init_def)

lemma regex_first_here:
  "anchored s = Some m \<Longrightarrow> regex_first anchored s = Some m"
  by (cases s) simp_all

lemma regex_first_skip:
  assumes "\<And>n. n < length pre \<Longrightarrow> anchored (drop n pre @ s) = None"
  shows "regex_first anchored (pre @ s) = regex_first anchored s"
  using assms
proof (induction pre)
  case Nil
  show ?case by simp
next
  case (Cons c pre)
  have "anchored ((c # pre) @ s) = None"
    using Cons.prems [of 0] by simp
  moreover have "regex_first anchored (pre @ s) = regex_first anchored s"
  proof (rule Cons.IH)
    fix n assume "n < length pre"
    then show "anchored (drop n pre @ s) = None"
      using Cons.prems [of "Suc n"] by simp
  qed
  ultimately show ?case by simp
qed

lemma prefix_across_newline:
  assumes "prefix l (u @ CHR 0x0A # s)" and "CHR 0x0A \<notin> set l"
  shows "prefix l u"
proof -
  from assms(1) consider "prefix l u" | us where "l = u @ us" "prefix us (CHR 0x0A # s)"
    by (auto simp: prefix_append)
  then show ?thesis
  proof cases
    case 1
    then show ?thesis .
  next
    case 2
    then have "us = []"
      using assms(2) by (cases us) auto
    with 2 show ?thesis by simp
  qed
qed

lemma no_prefix_in_foreign_line:
  assumes "\<not> sublist l x" and "CHR 0x0A \<notin> set l" and "n \<le> length x"
  shows "\<not> prefix l (drop n (x @ [CHR 0x0A]) @ s)"
proof
  assume p: "prefix l (drop n (x @ [CHR 0x0A]) @ s)"
  then have "prefix l (drop n x @ CHR 0x0A # s)" using assms(3) by simp
  then have "prefix l (drop n x)" using assms(2) by (rule prefix_across_newline)
  then have "sublist l (drop n x)" by (rule prefix_imp_sublist)
  then have "sublist l x" using sublist_drop [of n x] sublist_order.order_trans by blast
  with assms(1) show False by simp
qed

lemma skip_foreign_line:
  assumes "\<And>y. \<not> prefix l y \<Longrightarrow> anchored y = None"
    and "\<not> sublist l x" and "CHR 0x0A \<notin> set l"
  shows "regex_first anchored (x @ CHR 0x0A # s) = regex_first anchored s"
proof -
  have "regex_first anchored ((x @ [CHR 0x0A]) @ s) = regex_first anchored s"
  proof (rule regex_first_skip)
    fix n assume "n < length (x @ [CHR 0x0A])"
    then have "n \<le> length x" by simp
    then have "\<not> prefix l (drop n (x @ [CHR 0x0A]) @ s)"
      using assms(2,3) by (intro no_prefix_in_foreign_line)
    then show "anchored (drop n (x @ [CHR 0x0A]) @ s) = None" by (rule assms(1))
  qed
  then show ?thesis by simp
qed

lemma skip_foreign_lines:
  assumes "\<And>y. \<not> prefix l y \<Longrightarrow> anchored y = None"
    and "\<And>x. x \<in> set before \<Longrightarrow> \<not> sublist l x" and "CHR 0x0A \<notin> set l"
  shows "regex_first anchored (join_lines (before @ x # after)) =
    regex_first anchored (join_lines (x # after))"
  using assms(2)
proof (induction before)
  case Nil
  show ?case by simp
next
  case (Cons b before)
  obtain y ys where e: "before @ x # after = y # ys" by (cases before) auto
  have "regex_first anchored (join_lines ((b # before) @ x # after)) =
      regex_first anchored (b @ CHR 0x0A # join_lines (before @ x # after))"
    by (simp add: e)
  also have "\<dots> = regex_first anchored (join_lines (before @ x # after))"
    using assms(1) Cons.prems [of b] assms(3) by (intro skip_foreign_line) auto
  also have "\<dots> = regex_first anchored (join_lines (x # after))"
    using Cons.prems by (intro Cons.IH) auto
  finally show ?case .
qed

lemma join_lines_Cons:
  "join_lines (x # after) = x @ (if after = [] then [] else CHR 0x0A # join_lines after)"
  by (cases after) simp_all

lemma score_at_no_prefix: "\<not> prefix l y \<Longrightarrow> score_at l y = None"
  by (simp add: score_at_def)

lemma concepts_at_no_prefix: "\<not> prefix ''concepts:'' y \<Longrightarrow> concepts_at y = None"
  by (simp add: concepts_at_def)

lemma score_at_own_line:
  assumes "score_text v" and "rest = [] \<or> hd rest = CHR 0x0A"
  shows "score_at l (l @ v @ rest) = Some v"
proof -
  obtain c v' where v: "v = c # v'" "is_score_char c"
    using assms(1) by (cases v) (auto simp: score_text_def)
  have ns: "\<not> is_space c"
    using v(2) by (auto simp: is_score_char_def is_space_def is_digit_def)
  have nl: "\<not> is_score_char (CHR 0x0A)"
    by (simp add: is_score_char_def is_digit_def)
  have "takeWhile is_score_char (v @ rest) = v"
  proof (cases rest)
    case Nil
    then show ?thesis using assms(1) by (simp add: score_text_def list_all_iff)
  next
    case (Cons r rs)
    with assms(2) have "r = CHR 0x0A" by simp
    with Cons nl show ?thesis
      using assms(1) by (simp add: score_text_def list_all_iff takeWhile_append2)
  qed
  then show ?thesis
    using v ns by (simp add: score_at_def)
qed

lemma score_first_in_lines:
  assumes "score_text v" and "\<And>x. x \<in> set before \<Longrightarrow> \<not> sublist l x"
    and "CHR 0x0A \<notin> set l"
  shows "regex_first (score_at l) (join_lines (before @ (l @ v) # after)) = Some v"
proof -
  have "regex_first (score_at l) (join_lines (before @ (l @ v) # after)) =
      regex_first (score_at l) (join_lines ((l @ v) # after))"
    using assms(2,3) by (intro skip_foreign_lines score_at_no_prefix) auto
  also have "\<dots> = Some v"
    unfolding join_lines_Cons
    using score_at_own_line [OF assms(1), of "if after = [] then [] else CHR 0x0A # join_lines after" l]
    by (intro regex_first_here) auto
  finally show ?thesis .
qed

lemma concepts_at_own_line:
  assumes "concept_text c" and "rest = [] \<or> hd rest = CHR 0x0A"
  shows "concepts_at (''concepts:'' @ c @ rest) = Some c"
proof -
  obtain x c' where c: "c = x # c'" "\<not> is_space x"
    using assms(1) by (cases c) (auto simp: concept_text_def)
  have lt: "is_line_terminator (CHR 0x0A)"
    by (simp add: is_line_terminator_def)
  have "takeWhile (\<lambda>c. \<not> is_line_terminator c) (c @ rest) = c"
  proof (cases rest)
    case Nil
    then show ?thesis using assms(1) by (simp add: concept_text_def list_all_iff)
  next
    case (Cons r rs)
    with assms(2) have "r = CHR 0x0A" by simp
    with Cons lt show ?thesis
      using assms(1) by (simp add: concept_text_def list_all_iff takeWhile_append2)
  qed
  then show ?thesis
    using c by (simp add: concepts_at_def)
qed

lemma concepts_first_in_lines:
  assumes "concept_text c" and "\<And>x. x \<in> set before \<Longrightarrow> \<not> sublist ''concepts:'' x"
  shows "regex_first concepts_at (join_lines (before @ (''concepts:'' @ c) # after)) = Some c"
proof -
  have "regex_first concepts_at (join_lines (before @ (''concepts:'' @ c) # after)) =
      regex_first concepts_at (join_lines ((''concepts:'' @ c) # after))"
    using assms(2) by (intro skip_foreign_lines [where l = "''concepts:''"] concepts_at_no_prefix) auto
  also have "\<dots> = Some c"
    unfolding join_lines_Cons
    using concepts_at_own_line [OF assms(1), of "if after = [] then [] else CHR 0x0A # join_lines after"]
    by (intro regex_first_here) auto
  finally show ?thesis .
qed

lemma label_not_in_other_line:
  assumes "l \<noteq> []" and "last l = CHR '':''" and "CHR '':'' \<notin> set v" and "\<not> sublist l l'"
  shows "\<not> sublist l (l' @ v)"
proof
  assume "sublist l (l' @ v)"
  then consider "sublist l l'" | "sublist l v"
    | xs1 xs2 where "l = xs1 @ xs2" "suffix xs1 l'" "prefix xs2 v"
    by (auto simp: sublist_append)
  then show False
  proof cases
    case 1
    with assms(4) show False by simp
  next
    case 2
    then have "set l \<subseteq> set v" by (rule set_mono_sublist)
    moreover have "last l \<in> set l" using assms(1) by simp
    ultimately show False using assms(2,3) by auto
  next
    case 3
    show False
    proof (cases "xs2 = []")
      case True
      with 3 have "sublist l l'" by auto
      with assms(4) show False by simp
    next
      case False
      then have "last l = last xs2" using 3(1) by simp
      moreover have "last xs2 \<in> set xs2" using False by simp
      moreover have "set xs2 \<subseteq> set v" using 3(3) by (rule set_mono_prefix)
      ultimately show False using assms(2,3) by auto
    qed
  qed
qed

lemma labels_apart_all:
  "list_all (\<lambda>l. list_all (\<lambda>l'. l = l' \<or> \<not> sublist l l') all_labels) all_labels"
  by code_simp

lemma labels_apart:
  "l \<in> set all_labels \<Longrightarrow> l' \<in> set all_labels \<Longrightarrow> l \<noteq> l' \<Longrightarrow> \<not> sublist l l'"
  using labels_apart_all by (auto simp: list_all_iff)

lemma label_shape:
  "l \<in> set all_labels \<Longrightarrow> l \<noteq> [] \<and> last l = CHR '':'' \<and> CHR 0x0A \<notin> set l"
  by (auto simp: all_labels_def)

lemma not_in_line:
  assumes "l \<in> set all_labels" and "l' \<in> set all_labels" and "l \<noteq> l'"
    and "CHR '':'' \<notin> set v"
  shows "\<not> sublist l (l' @ v)"
  using label_shape [OF assms(1)] labels_apart [OF assms(1,2,3)] assms(4)
  by (intro label_not_in_other_line) auto

lemma score_text_no_colon: "score_text v \<Longrightarrow> CHR '':'' \<notin> set v"
  by (auto simp: score_text_def list_all_iff is_score_char_def is_digit_def)

lemma concept_text_no_colon: "concept_text c \<Longrightarrow> CHR '':'' \<notin> set c"
  by (auto simp: concept_text_def list_all_iff)

lemma score_found:
  assumes "l @ v \<in> set ls" and "score_text v" and "CHR 0x0A \<notin> set l"
    and "\<And>y. y \<in> set ls \<Longrightarrow> y \<noteq> l @ v \<Longrightarrow> \<not> sublist l y"
  shows "regex_first (score_at l) (join_lines ls) = Some v"
proof -
  obtain before after where ls: "ls = before @ (l @ v) # after" "l @ v \<notin> set before"
    using split_list_first [OF assms(1)] by blast
  have "\<And>x. x \<in> set before \<Longrightarrow> \<not> sublist l x"
    using ls assms(4) by auto
  then show ?thesis
    unfolding ls(1) using assms(2,3) by (intro score_first_in_lines)
qed

lemma concepts_found:
  assumes "''concepts:'' @ c \<in> set ls" and "concept_text c"
    and "\<And>y. y \<in> set ls \<Longrightarrow> y \<noteq> ''concepts:'' @ c \<Longrightarrow> \<not> sublist ''concepts:'' y"
  shows "regex_first concepts_at (join_lines ls) = Some c"
proof -
  obtain before after where ls: "ls = before @ (''concepts:'' @ c) # after"
      "''concepts:'' @ c \<notin> set before"
    using split_list_first [OF assms(1)] by blast
  have "\<And>x. x \<in> set before \<Longrightarrow> \<not> sublist ''concepts:'' x"
    using ls assms(3) by auto
  then show ?thesis
    unfolding ls(1) using assms(2) by (intro concepts_first_in_lines)
qed

lemma reply_fields_labels: "map fst (reply_fields h s a f su d c) = all_labels"
  by (simp add: reply_fields_def all_labels_def)

lemma reply_field_label:
  "(l, v) \<in> set (reply_fields h s a f su d c) \<Longrightarrow> l \<in> set all_labels"
  by (auto simp: reply_fields_def all_labels_def)

lemma distinct_all_labels: "distinct all_labels"
  by (simp add: all_labels_def)

lemma other_lines:
  assumes "score_text h" "score_text s" "score_text a" "score_text f" "score_text su"
    "score_text d" "concept_text c"
    and "(l, v) \<in> set (reply_fields h s a f su d c)"
    and "(l', v') \<in> set (reply_fields h s a f su d c)"
    and "l' @ v' \<noteq> l @ v"
  shows "\<not> sublist l (l' @ v')"
proof -
  note nc = assms(1-6) [THEN score_text_no_colon] assms(7) [THEN concept_text_no_colon]
  have d: "distinct (map fst (reply_fields h s a f su d c))"
    by (simp add: reply_fields_labels distinct_all_labels)
  have l: "l \<in> set all_labels" "l' \<in> set all_labels"
    using assms(8,9) by (auto dest: reply_field_label)
  have "l \<noteq> l'"
  proof
    assume "l = l'"
    then have "v = v'"
      using d assms(8,9) by (meson eq_key_imp_eq_value)
    with \<open>l = l'\<close> assms(10) show False by simp
  qed
  moreover have "CHR '':'' \<notin> set v'"
    using assms(9) nc by (auto simp: reply_fields_def)
  ultimately show ?thesis
    using l by (intro not_in_line)
qed

lemma field_score_found:
  assumes "score_text h" "score_text s" "score_text a" "score_text f" "score_text su"
    "score_text d" "concept_text c"
    and "set fs = set (reply_fields h s a f su d c)"
    and "(l, v) \<in> set (reply_fields h s a f su d c)" and "score_text v"
  shows "regex_first (score_at l) (reply_of fs) = Some v"
  unfolding reply_of_def
proof (rule score_found)
  show "l @ v \<in> set (map (\<lambda>(label, text). label @ text) fs)"
    using assms(8,9) by force
  show "score_text v" by fact
  have "l \<in> set all_labels"
    using assms(9) by (rule reply_field_label)
  then show "CHR 0x0A \<notin> set l"
    using label_shape by blast
  fix y
  assume "y \<in> set (map (\<lambda>(label, text). label @ text) fs)" and ne: "y \<noteq> l @ v"
  then obtain l' v' where y: "y = l' @ v'" "(l', v') \<in> set (reply_fields h s a f su d c)"
    using assms(8) by auto
  show "\<not> sublist l y"
    unfolding y(1) using assms(1-7) assms(9) y(2) ne [unfolded y(1)] by (rule other_lines)
qed

lemma field_concepts_found:
  assumes "score_text h" "score_text s" "score_text a" "score_text f" "score_text su"
    "score_text d" "concept_text c"
    and "set fs = set (reply_fields h s a f su d c)"
  shows "regex_first concepts_at (reply_of fs) = Some c"
  unfolding reply_of_def
proof (rule concepts_found)
  have m: "(''concepts:'', c) \<in> set (reply_fields h s a f su d c)"
    by (simp add: reply_fields_def)
  then show "''concepts:'' @ c \<in> set (map (\<lambda>(label, text). label @ text) fs)"
    using assms(8) by force
  show "concept_text c" by fact
  fix y
  assume "y \<in> set (map (\<lambda>(label, text). label @ text) fs)" and ne: "y \<noteq> ''concepts:'' @ c"
  then obtain l' v' where y: "y = l' @ v'" "(l', v') \<in> set (reply_fields h s a f su d c)"
    using assms(8) by auto
  show "\<not> sublist ''concepts:'' y"
    unfolding y(1) using assms(1-7) m y(2) ne [unfolded y(1)] by (rule other_lines)
qed

text \<open>
  A reply made of the seven labelled lines, in any order, each score label directly followed
  by a run of digits and dots and \<open>concepts:\<close> by a concepts text, is a \<open>Success\<close> with the
  values of its lines.
\<close>

lemma reply_in_any_order:
  assumes "score_text h" "score_text s" "score_text a" "score_text f" "score_text su"
    "score_text d" "concept_text c"
    and "set fs = set (reply_fields h s a f su d c)"
  shows "parseSentimentResponse ar (reply_of fs) =
    Success \<lparr>happiness = parseFloat ar h, sadness = parseFloat ar s, anger = parseFloat ar a,
      fear = parseFloat ar f, surprise = parseFloat ar su, disgust = parseFloat ar d,
      concepts = filter (\<lambda>c. 0 < length c) (map trim (split CHR '','' (trim c)))\<rparr>"
proof -
  note found = field_score_found [OF assms]
  have "regex_first (score_at ''happiness:'') (reply_of fs) = Some h"
    "regex_first (score_at ''sadness:'') (reply_of fs) = Some s"
    "regex_first (score_at ''anger:'') (reply_of fs) = Some a"
    "regex_first (score_at ''fear:'') (reply_of fs) = Some f"
    "regex_first (score_at ''surprise:'') (reply_of fs) = Some su"
    "regex_first (score_at ''disgust:'') (reply_of fs) = Some d"
    using assms(1-6) by (intro found; simp add: reply_fields_def)+
  moreover have "regex_first concepts_at (reply_of fs) = Some c"
    using assms by (rule field_concepts_found)
  ultimately show ?thesis
    by (simp add: parseSentimentResponse_def)
qed

lemma field_at_iff:
  "field_at l starts s \<longleftrightarrow>
     (\<exists>ws c rest. s = l @ ws @ c # rest \<and> list_all is_space ws \<and> starts c)"
proof
  assume f: "field_at l starts s"
  define after where "after = drop (length l) s"
  have s: "s = l @ after"
    using f by (auto simp: field_at_def after_def prefix_def)
  have "list_ex starts (takeWhile is_space after @ take 1 (dropWhile is_space after))"
    using f by (simp add: field_at_def after_def Let_def)
  then consider c where "c \<in> set (takeWhile is_space after)" "starts c"
    | c where "c \<in> set (take 1 (dropWhile is_space after))" "starts c"
    by (auto simp: list_ex_iff)
  then show "\<exists>ws c rest. s = l @ ws @ c # rest \<and> list_all is_space ws \<and> starts c"
  proof cases
    case 1
    then obtain ws r where t: "takeWhile is_space after = ws @ c # r"
      by (meson split_list)
    have "list_all is_space (takeWhile is_space after)"
      by (auto simp: list_all_iff dest: set_takeWhileD)
    then have "list_all is_space ws" unfolding t by simp
    moreover have "after = ws @ c # (r @ dropWhile is_space after)"
      using takeWhile_dropWhile_id [of is_space after] unfolding t by simp
    ultimately show ?thesis using s 1(2) by blast
  next
    case 2
    then obtain r where d: "dropWhile is_space after = c # r"
      by (cases "dropWhile is_space after") auto
    have "list_all is_space (takeWhile is_space after)"
      by (auto simp: list_all_iff dest: set_takeWhileD)
    moreover have "after = takeWhile is_space after @ c # r"
      using takeWhile_dropWhile_id [of is_space after] unfolding d by simp
    ultimately show ?thesis using s 2(2) by blast
  qed
next
  assume "\<exists>ws c rest. s = l @ ws @ c # rest \<and> list_all is_space ws \<and> starts c"
  then obtain ws c rest where s: "s = l @ ws @ c # rest" and w: "list_all is_space ws" and c: "starts c"
    by blast
  have w': "\<forall>x\<in>set ws. is_space x" using w by (simp add: list_all_iff)
  show "field_at l starts s"
  proof (cases "is_space c")
    case True
    have "takeWhile is_space (ws @ c # rest) = ws @ takeWhile is_space (c # rest)"
      using w' by (simp add: takeWhile_append2)
    then have "c \<in> set (takeWhile is_space (ws @ c # rest))"
      using True by simp
    then show ?thesis
      using c unfolding s by (auto simp: field_at_def Let_def list_ex_iff)
  next
    case False
    have "dropWhile is_space (ws @ c # rest) = c # rest"
      using w' False by (simp add: dropWhile_append2)
    then show ?thesis
      using c unfolding s by (auto simp: field_at_def Let_def list_ex_iff)
  qed
qed

lemma has_field_positions:
  "has_field l starts content \<longleftrightarrow> (\<exists>n\<le>length content. field_at l starts (drop n content))"
proof -
  have "set (suffixes content) = {drop n content |n. n \<le> length content}"
  proof (intro set_eqI iffI)
    fix x assume "x \<in> set (suffixes content)"
    then have "suffix x content" by (simp add: in_set_suffixes)
    then obtain zs where z: "content = zs @ x" by (auto simp: suffix_def)
    then have "x = drop (length zs) content" "length zs \<le> length content" by simp_all
    then show "x \<in> {drop n content |n. n \<le> length content}" by blast
  next
    fix x assume "x \<in> {drop n content |n. n \<le> length content}"
    then show "x \<in> set (suffixes content)" by (auto simp: in_set_suffixes suffix_drop)
  qed
  then show ?thesis by (auto simp: has_field_def list_ex_iff)
qed

lemma has_field_iff:
  "has_field l starts content \<longleftrightarrow>
     (\<exists>pre ws c rest. content = pre @ l @ ws @ c # rest \<and> list_all is_space ws \<and> starts c)"
proof
  assume "has_field l starts content"
  then obtain n where n: "n \<le> length content" "field_at l starts (drop n content)"
    by (auto simp: has_field_positions)
  then obtain ws c rest where "drop n content = l @ ws @ c # rest" "list_all is_space ws" "starts c"
    by (auto simp: field_at_iff)
  moreover have "content = take n content @ drop n content" by simp
  ultimately show "\<exists>pre ws c rest. content = pre @ l @ ws @ c # rest \<and> list_all is_space ws \<and> starts c"
    by metis
next
  assume "\<exists>pre ws c rest. content = pre @ l @ ws @ c # rest \<and> list_all is_space ws \<and> starts c"
  then obtain pre ws c rest where c: "content = pre @ l @ ws @ c # rest" "list_all is_space ws" "starts c"
    by blast
  then have "field_at l starts (drop (length pre) content)"
    by (auto simp: field_at_iff)
  moreover have "length pre \<le> length content" using c(1) by simp
  ultimately show "has_field l starts content"
    unfolding has_field_positions by blast
qed

lemma regex_first_None:
  "regex_first anchored s = None \<longleftrightarrow> (\<forall>n\<le>length s. anchored (drop n s) = None)"
proof (induction s)
  case Nil
  show ?case by simp
next
  case (Cons c s)
  have "(\<forall>n\<le>length (c # s). anchored (drop n (c # s)) = None) \<longleftrightarrow>
      anchored (c # s) = None \<and> (\<forall>n\<le>length s. anchored (drop n s) = None)"
  proof (intro iffI conjI allI impI)
    assume a: "\<forall>n\<le>length (c # s). anchored (drop n (c # s)) = None"
    from a [rule_format, of 0] show "anchored (c # s) = None" by simp
    fix n assume "n \<le> length s"
    with a [rule_format, of "Suc n"] show "anchored (drop n s) = None" by simp
  next
    fix n
    assume a: "anchored (c # s) = None \<and> (\<forall>n\<le>length s. anchored (drop n s) = None)"
      and n: "n \<le> length (c # s)"
    show "anchored (drop n (c # s)) = None"
      using a n by (cases n) auto
  qed
  then show ?case
    using Cons.IH by (simp split: option.splits)
qed

lemma regex_first_Some:
  assumes "regex_first anchored s = Some m"
  shows "\<exists>n\<le>length s. anchored (drop n s) = Some m \<and> (\<forall>k<n. anchored (drop k s) = None)"
  using assms
proof (induction s)
  case Nil
  then show ?case by simp
next
  case (Cons c s)
  show ?case
  proof (cases "anchored (c # s)")
    case (Some a)
    with Cons.prems have "anchored (drop 0 (c # s)) = Some m" by simp
    then show ?thesis by blast
  next
    case None
    with Cons.prems have "regex_first anchored s = Some m" by simp
    then obtain n where n: "n \<le> length s" "anchored (drop n s) = Some m"
        "\<forall>k<n. anchored (drop k s) = None"
      using Cons.IH by blast
    have "\<forall>k<Suc n. anchored (drop k (c # s)) = None"
    proof (intro allI impI)
      fix k assume "k < Suc n"
      then show "anchored (drop k (c # s)) = None"
        using None n(3) by (cases k) auto
    qed
    with n(1,2) show ?thesis
      by (intro exI [of _ "Suc n"]) simp
  qed
qed

lemma score_char_not_space: "is_score_char c \<Longrightarrow> \<not> is_space c"
  by (auto simp: is_score_char_def is_space_def is_digit_def)

lemma score_at_field: "score_at l s \<noteq> None \<longleftrightarrow> field_at l is_score_char s"
proof -
  define w where "w = takeWhile is_space (drop (length l) s)"
  define d where "d = dropWhile is_space (drop (length l) s)"
  have a: "\<not> list_ex is_score_char w"
    unfolding w_def by (auto simp: list_ex_iff dest!: set_takeWhileD score_char_not_space)
  have b: "takeWhile is_score_char d \<noteq> [] \<longleftrightarrow> list_ex is_score_char (take 1 d)"
    by (cases d) auto
  have "score_at l s \<noteq> None \<longleftrightarrow> prefix l s \<and> takeWhile is_score_char d \<noteq> []"
    unfolding d_def by (simp add: score_at_def Let_def)
  moreover have "field_at l is_score_char s \<longleftrightarrow>
      prefix l s \<and> (list_ex is_score_char w \<or> list_ex is_score_char (take 1 d))"
    unfolding d_def w_def field_at_def Let_def list_ex_append ..
  ultimately show ?thesis
    using a b by simp
qed

lemma line_terminator_space: "is_line_terminator c \<Longrightarrow> is_space c"
  by (auto simp: is_line_terminator_def is_space_def)

lemma concepts_at_field:
  "concepts_at s \<noteq> None \<longleftrightarrow> field_at ''concepts:'' (\<lambda>c. \<not> is_line_terminator c) s"
proof -
  define w where "w = takeWhile is_space (drop (length ''concepts:'') s)"
  define d where "d = dropWhile is_space (drop (length ''concepts:'') s)"
  let ?ok = "\<lambda>c. \<not> is_line_terminator c"
  have c: "concepts_at s =
      (if prefix ''concepts:'' s then
         if d \<noteq> [] then Some (takeWhile ?ok d)
         else (case filter ?ok w of [] \<Rightarrow> None | x # xs \<Rightarrow> Some [last (x # xs)])
       else None)"
    unfolding d_def w_def concepts_at_def Let_def ..
  have f: "field_at ''concepts:'' ?ok s \<longleftrightarrow>
      prefix ''concepts:'' s \<and> (list_ex ?ok w \<or> list_ex ?ok (take 1 d))"
    unfolding d_def w_def field_at_def Let_def list_ex_append ..
  have d: "list_ex ?ok (take 1 d)" if "d \<noteq> []"
  proof -
    from that obtain x xs where e: "d = x # xs" by (cases d) auto
    have "\<not> is_space (hd d)"
      unfolding d_def using that [unfolded d_def] by (rule hd_dropWhile)
    then have "\<not> is_line_terminator x"
      using e line_terminator_space by auto
    then show ?thesis by (simp add: e)
  qed
  have w: "list_ex ?ok w \<longleftrightarrow> filter ?ok w \<noteq> []"
    by (auto simp: list_ex_iff filter_empty_conv)
  show ?thesis
  proof (cases "d = []")
    case True
    then show ?thesis
      unfolding c f w by (simp split: list.splits)
  next
    case False
    then show ?thesis
      unfolding c f using d by simp
  qed
qed

lemma score_found_iff:
  "regex_first (score_at l) content \<noteq> None \<longleftrightarrow> has_field l is_score_char content"
  using score_at_field [of l] by (auto simp: regex_first_None has_field_positions)

lemma concepts_found_iff:
  "regex_first concepts_at content \<noteq> None \<longleftrightarrow>
     has_field ''concepts:'' (\<lambda>c. \<not> is_line_terminator c) content"
  using concepts_at_field by (auto simp: regex_first_None has_field_positions)


lemma parse_failure_iff:
  "parseSentimentResponse ar content = Failure (Some content) \<longleftrightarrow> \<not> has_all_fields content"
  unfolding has_all_fields_def score_labels_def
  by (simp add: parseSentimentResponse_def Let_def score_found_iff [symmetric]
      concepts_found_iff [symmetric])

lemma score_at_read:
  assumes "score_at l (drop n content) = Some v" and "n \<le> length content"
    and "\<forall>k<n. score_at l (drop k content) = None"
  shows "score_read ar l content (parseFloat ar v)"
proof -
  define after where "after = drop (length l) (drop n content)"
  define ws where "ws = takeWhile is_space after"
  define d where "d = dropWhile is_space after"
  define rest where "rest = dropWhile is_score_char d"
  have p: "prefix l (drop n content)"
    using assms(1) by (auto simp: score_at_def split: if_splits)
  have v: "v = takeWhile is_score_char d" "v \<noteq> []"
    using assms(1) p unfolding d_def after_def by (auto simp: score_at_def Let_def split: if_splits)
  have "drop n content = l @ after"
  proof -
    obtain zs where z: "drop n content = l @ zs"
      using p by (auto simp: prefix_def)
    have "after = zs"
      unfolding after_def z by simp
    with z show ?thesis by simp
  qed
  moreover have "after = ws @ d"
    unfolding ws_def d_def by simp
  moreover have "d = v @ rest"
    unfolding v(1) rest_def by simp
  moreover have "content = take n content @ drop n content"
    by simp
  ultimately have c: "content = take n content @ l @ ws @ v @ rest"
    by metis
  have w: "list_all is_space ws"
    unfolding ws_def by (auto simp: list_all_iff dest: set_takeWhileD)
  have t: "score_text v"
    using v by (auto simp: score_text_def list_all_iff dest: set_takeWhileD)
  have r: "rest = [] \<or> \<not> is_score_char (hd rest)"
    unfolding rest_def using hd_dropWhile [of is_score_char d] by blast
  have f: "\<forall>k<length (take n content). \<not> field_at l is_score_char (drop k content)"
  proof (intro allI impI)
    fix k assume "k < length (take n content)"
    then have "score_at l (drop k content) = None"
      using assms(2,3) by simp
    then show "\<not> field_at l is_score_char (drop k content)"
      using score_at_field [of l "drop k content"] by simp
  qed
  show ?thesis
    unfolding score_read_def using c w t r f by blast
qed

lemma score_read_first:
  assumes "regex_first (score_at l) content = Some v"
  shows "score_read ar l content (parseFloat ar v)"
proof -
  obtain n where "n \<le> length content" "score_at l (drop n content) = Some v"
      "\<forall>k<n. score_at l (drop k content) = None"
    using regex_first_Some [OF assms] by blast
  then show ?thesis by (intro score_at_read)
qed

lemma minus_not_field:
  assumes "minus_after l content"
  shows "\<not> has_field l is_score_char content"
proof
  assume "has_field l is_score_char content"
  then obtain s where s: "s \<in> set (suffixes content)" "field_at l is_score_char s"
    by (auto simp: has_field_def list_ex_iff)
  then have "prefix l s" by (simp add: field_at_def)
  with assms s(1) have "prefix (l @ ''-'') s"
    by (auto simp: minus_after_def list_all_iff)
  then obtain r where "s = l @ CHR ''-'' # r"
    by (auto simp: prefix_def)
  then show False
    using s(2) by (simp add: field_at_def is_space_def is_score_char_def is_digit_def)
qed



text \<open>
  C7, as amended. The parser checks neither range nor form: a reply that has the seven
  fields is a \<open>Success\<close>, and each of its scores is \<open>parseFloat\<close> of the longest run of digits
  and dots that follows, after white space or none, the leftmost occurrence of its label
  that has such a run. A minus sign is not part of a run: a reply in which every occurrence
  of a score label is directly followed by a minus sign is a failure with the whole reply
  as its reason.
\<close>

theorem scores_read_without_range_check:
  "(has_all_fields content \<longrightarrow>
      (\<exists>ok. parseSentimentResponse ar content = Success ok \<and>
         score_read ar ''happiness:'' content (happiness ok) \<and>
         score_read ar ''sadness:'' content (sadness ok) \<and>
         score_read ar ''anger:'' content (anger ok) \<and>
         score_read ar ''fear:'' content (fear ok) \<and>
         score_read ar ''surprise:'' content (surprise ok) \<and>
         score_read ar ''disgust:'' content (disgust ok))) \<and>
   (l \<in> set score_labels \<and> minus_after l content \<longrightarrow>
      parseSentimentResponse ar content = Failure (Some content))"
proof (intro conjI impI)
  assume h: "has_all_fields content"
  have "\<forall>l\<in>set score_labels. regex_first (score_at l) content \<noteq> None"
    using h unfolding has_all_fields_def list_all_iff score_found_iff by blast
  moreover have c: "regex_first concepts_at content \<noteq> None"
    using h unfolding has_all_fields_def concepts_found_iff by blast
  ultimately obtain h s a f su d where m:
    "regex_first (score_at ''happiness:'') content = Some h"
    "regex_first (score_at ''sadness:'') content = Some s"
    "regex_first (score_at ''anger:'') content = Some a"
    "regex_first (score_at ''fear:'') content = Some f"
    "regex_first (score_at ''surprise:'') content = Some su"
    "regex_first (score_at ''disgust:'') content = Some d"
    by (auto simp: score_labels_def)
  have "parseSentimentResponse ar content =
    Success \<lparr>happiness = parseFloat ar h, sadness = parseFloat ar s, anger = parseFloat ar a,
      fear = parseFloat ar f, surprise = parseFloat ar su, disgust = parseFloat ar d,
      concepts = filter (\<lambda>c. 0 < length c)
        (map trim (split CHR '','' (trim (the (regex_first concepts_at content)))))\<rparr>"
    using c by (auto simp: parseSentimentResponse_def m Let_def)
  then show "\<exists>ok. parseSentimentResponse ar content = Success ok \<and>
         score_read ar ''happiness:'' content (happiness ok) \<and>
         score_read ar ''sadness:'' content (sadness ok) \<and>
         score_read ar ''anger:'' content (anger ok) \<and>
         score_read ar ''fear:'' content (fear ok) \<and>
         score_read ar ''surprise:'' content (surprise ok) \<and>
         score_read ar ''disgust:'' content (disgust ok)"
    using m [THEN score_read_first, of ar] by simp
next
  assume a: "l \<in> set score_labels \<and> minus_after l content"
  then have "\<not> has_field l is_score_char content"
    by (intro minus_not_field) simp
  with a have "\<not> has_all_fields content"
    by (auto simp: has_all_fields_def list_all_iff)
  then show "parseSentimentResponse ar content = Failure (Some content)"
    by (simp add: parse_failure_iff)
qed

theorem scores_read_without_range_check_witness:
  "has_all_fields
     ''happiness:77\<newline>sadness:4.5\<newline>anger:0\<newline>fear:10\<newline>surprise:0.25\<newline>disgust:9\<newline>concepts:peace, Ukraine war'' \<and>
   parseSentimentResponse symbolic
     ''happiness:77\<newline>sadness:4.5\<newline>anger:0\<newline>fear:10\<newline>surprise:0.25\<newline>disgust:9\<newline>concepts:peace, Ukraine war'' =
   Success \<lparr>happiness = ParseFloat ''77'', sadness = ParseFloat ''4.5'', anger = ParseFloat ''0'',
     fear = ParseFloat ''10'', surprise = ParseFloat ''0.25'', disgust = ParseFloat ''9'',
     concepts = [''peace'', ''Ukraine war'']\<rparr> \<and>
   score_read symbolic ''sadness:''
     ''happiness:77\<newline>sadness:4.5\<newline>anger:0\<newline>fear:10\<newline>surprise:0.25\<newline>disgust:9\<newline>concepts:peace, Ukraine war''
     (ParseFloat ''4.5'') \<and>
   ''fear:'' \<in> set score_labels \<and>
   minus_after ''fear:''
     ''happiness:7\<newline>sadness:1\<newline>anger:0\<newline>fear:-3\<newline>surprise:5\<newline>disgust:4\<newline>concepts:peace'' \<and>
   parseSentimentResponse symbolic
     ''happiness:7\<newline>sadness:1\<newline>anger:0\<newline>fear:-3\<newline>surprise:5\<newline>disgust:4\<newline>concepts:peace'' =
   Failure (Some ''happiness:7\<newline>sadness:1\<newline>anger:0\<newline>fear:-3\<newline>surprise:5\<newline>disgust:4\<newline>concepts:peace'')"
proof -
  have 1: "has_all_fields
     ''happiness:77\<newline>sadness:4.5\<newline>anger:0\<newline>fear:10\<newline>surprise:0.25\<newline>disgust:9\<newline>concepts:peace, Ukraine war''"
    by code_simp
  have 2: "parseSentimentResponse symbolic
     ''happiness:77\<newline>sadness:4.5\<newline>anger:0\<newline>fear:10\<newline>surprise:0.25\<newline>disgust:9\<newline>concepts:peace, Ukraine war'' =
   Success \<lparr>happiness = ParseFloat ''77'', sadness = ParseFloat ''4.5'', anger = ParseFloat ''0'',
     fear = ParseFloat ''10'', surprise = ParseFloat ''0.25'', disgust = ParseFloat ''9'',
     concepts = [''peace'', ''Ukraine war'']\<rparr>"
    by code_simp
  have 3: "minus_after ''fear:''
     ''happiness:7\<newline>sadness:1\<newline>anger:0\<newline>fear:-3\<newline>surprise:5\<newline>disgust:4\<newline>concepts:peace''"
    by code_simp
  show ?thesis
    using 1 2 3
      scores_read_without_range_check [of
        "''happiness:77\<newline>sadness:4.5\<newline>anger:0\<newline>fear:10\<newline>surprise:0.25\<newline>disgust:9\<newline>concepts:peace, Ukraine war''"
        symbolic "''fear:''"]
      scores_read_without_range_check [of
        "''happiness:7\<newline>sadness:1\<newline>anger:0\<newline>fear:-3\<newline>surprise:5\<newline>disgust:4\<newline>concepts:peace''"
        symbolic "''fear:''"]
    by (simp add: score_labels_def)
qed

text \<open>
  C7 as stated fails for negative values: a reply with all seven labels whose happiness is
  \<open>-7\<close> is rejected, with the whole reply as the reason.
\<close>

theorem negative_score_counterexample:
  "parseSentimentResponse symbolic
     ''happiness:-7\<newline>sadness:1\<newline>anger:0\<newline>fear:3\<newline>surprise:5\<newline>disgust:4\<newline>concepts:peace,ukraine war'' =
   Failure (Some ''happiness:-7\<newline>sadness:1\<newline>anger:0\<newline>fear:3\<newline>surprise:5\<newline>disgust:4\<newline>concepts:peace,ukraine war'')"
  by (simp add: parseSentimentResponse_def Let_def score_at_def is_score_char_def is_digit_def is_space_def)

text \<open>
  The score is read at the leftmost place where the label has a value: here \<open>happiness:\<close> is
  followed by a minus sign at its first occurrence and by a digit inside \<open>unhappiness:2\<close>, and
  the reply is a \<open>Success\<close> whose happiness is read from there.
\<close>

lemma leftmost_value_is_read:
  "parseSentimentResponse symbolic
     ''happiness:-7\<newline>sadness:1\<newline>anger:0\<newline>fear:3\<newline>surprise:5\<newline>disgust:4\<newline>concepts:unhappiness:2'' =
   Success \<lparr>happiness = ParseFloat ''2'', sadness = ParseFloat ''1'', anger = ParseFloat ''0'',
     fear = ParseFloat ''3'', surprise = ParseFloat ''5'', disgust = ParseFloat ''4'',
     concepts = [''unhappiness:2'']\<rparr>"
  by code_simp

lemma first_seen_snoc:
  "first_seen (ks @ [k]) = (if k \<in> set ks then first_seen ks else first_seen ks @ [k])"
  by (simp add: first_seen_def)

lemma set_first_seen [simp]: "set (first_seen ks) = set ks"
  by (simp add: first_seen_def)

lemma distinct_first_seen [simp]: "distinct (first_seen ks)"
  by (simp add: first_seen_def)

lemma map_of_count_table:
  "map_of (count_table ks) k = (if k \<in> set ks then Some (JNum (count_list ks k)) else None)"
  by (auto simp: count_table_def map_of_map_restrict restrict_map_def)

lemma plain_not_proto: "plain_key k \<Longrightarrow> k \<noteq> ''__proto__''"
  by (auto simp: plain_key_def Object_prototype_def)

lemma count_step:
  assumes "plain_key k"
  shows "obj_set (count_table ks) k (js_plus_one (js_or (obj_get (count_table ks) k) (JNum 0))) =
    count_table (ks @ [k])"
proof (cases "k \<in> set ks")
  case True
  then have pos: "count_list ks k \<noteq> 0"
    by (simp add: count_list_0_iff)
  have "obj_set (count_table ks) k (js_plus_one (js_or (obj_get (count_table ks) k) (JNum 0))) =
      map (\<lambda>(k', v'). if k' = k then (k', JNum (count_list ks k + 1)) else (k', v')) (count_table ks)"
    using True pos
    by (auto simp: obj_set_def obj_get_def map_of_count_table js_or_def truthy_def)
  also have "\<dots> = count_table (ks @ [k])"
    using True by (auto simp: count_table_def first_seen_snoc)
  finally show ?thesis .
next
  case False
  then have "obj_set (count_table ks) k (js_plus_one (js_or (obj_get (count_table ks) k) (JNum 0))) =
      count_table ks @ [(k, JNum 1)]"
    using assms plain_not_proto [OF assms]
    by (simp add: obj_set_def obj_get_def map_of_count_table js_or_def truthy_def plain_key_def)
  also have "\<dots> = count_table (ks @ [k])"
    using False by (auto simp: count_table_def first_seen_snoc)
  finally show ?thesis .
qed

lemma count_concepts_table:
  assumes "list_all plain_key (map toLowerCase cs)"
  shows "foldl count_concept (count_table ks) cs = count_table (ks @ map toLowerCase cs)"
  using assms
proof (induction cs arbitrary: ks)
  case Nil
  show ?case by simp
next
  case (Cons c cs)
  have "count_concept (count_table ks) c = count_table (ks @ [toLowerCase c])"
    using Cons.prems by (simp add: count_concept_def count_step)
  then show ?case
    using Cons.IH [of "ks @ [toLowerCase c]"] Cons.prems by simp
qed

lemma tally_conceptCounts:
  "conceptCounts (foldl (tally_step ar) t rs) =
     foldl count_concept (conceptCounts t) (concat (map concepts (successes rs)))"
  by (induction rs arbitrary: t rule: successes.induct) simp_all

lemma conceptCounts_table:
  assumes "list_all plain_key (batch_concepts results)"
  shows "conceptCounts (tally ar results) = count_table (batch_concepts results)"
proof -
  have "count_table [] = []" by (simp add: count_table_def first_seen_def)
  then show ?thesis
    using count_concepts_table [of "concat (map concepts (successes results))" "[]"] assms
    by (simp add: tally_def tally_conceptCounts Tally_init_def batch_concepts_def)
qed

lemma insort_key_map:
  "insort_key f (g x) (map g ys) = map g (insort_key (\<lambda>k. f (g k)) x ys)"
  by (induction ys) simp_all

lemma sort_key_map:
  "sort_key f (map g xs) = map g (sort_key (\<lambda>k. f (g k)) xs)"
  by (induction xs) (simp_all add: insort_key_map)

lemma insert_sorted_counts:
  "insert_sorted compare_counts (k, JNum (c k)) (map (\<lambda>k. (k, JNum (c k))) ys) =
     map (\<lambda>k. (k, JNum (c k))) (insort_key (\<lambda>k. - int (c k)) k ys)"
  by (induction ys) (auto simp: compare_counts_def)

lemma Array_sort_counts:
  "Array_sort compare_counts (map (\<lambda>k. (k, JNum (c k))) xs) =
     map (\<lambda>k. (k, JNum (c k))) (sort_key (\<lambda>k. - int (c k)) xs)"
  by (induction xs) (simp_all add: Array_sort_def insert_sorted_counts)

lemma Object_entries_table:
  "Object_entries (map (\<lambda>k. (k, JNum (c k))) xs) =
     map (\<lambda>k. (k, JNum (c k)))
       (sort_key decimal_value (filter is_array_index xs) @ filter (\<lambda>k. \<not> is_array_index k) xs)"
  by (simp add: Object_entries_def filter_map sort_key_map comp_def)

lemma rebuild_object:
  assumes "distinct (map fst (acc @ xs))" and "''__proto__'' \<notin> fst ` set xs"
  shows "foldl (\<lambda>obj (concept, count). obj_set obj concept count) acc xs = acc @ xs"
  using assms
proof (induction xs arbitrary: acc)
  case Nil
  show ?case by simp
next
  case (Cons x xs)
  obtain k v where x: "x = (k, v)" by (cases x)
  have "map_of acc k = None"
    using Cons.prems(1) by (auto simp: x map_of_eq_None_iff)
  then have "obj_set acc k v = acc @ [(k, v)]"
    using Cons.prems(2) by (auto simp: obj_set_def x)
  then show ?case
    using Cons.IH [of "acc @ [x]"] Cons.prems by (simp add: x)
qed

lemma set_enumeration_order [simp]: "set (enumeration_order ks) = set ks"
  by (auto simp: enumeration_order_def)

lemma distinct_enumeration_order [simp]: "distinct (enumeration_order ks)"
  by (auto simp: enumeration_order_def)

lemma set_ranked [simp]: "set (ranked ks) = set ks"
  by (simp add: ranked_def)

lemma distinct_ranked [simp]: "distinct (ranked ks)"
  by (simp add: ranked_def)

lemma length_ranked: "length (ranked ks) = card (set ks)"
  using distinct_card [OF distinct_ranked, of ks] by simp

lemma top_concepts_table:
  assumes "successes results \<noteq> []" and "list_all plain_key (batch_concepts results)"
  shows "\<exists>d. updateMeters ar now results = Some d \<and>
    topConcepts d =
      map (\<lambda>k. (k, JNum (count_list (batch_concepts results) k)))
        (take 200 (ranked (batch_concepts results)))"
proof -
  let ?ks = "batch_concepts results"
  let ?g = "\<lambda>k. (k, JNum (count_list ?ks k))"
  have n: "0 < messageCount_n (tally ar results)"
    using assms(1) by (simp add: tally_def tally_messageCount Tally_init_def)
  have "Object_entries (conceptCounts (tally ar results)) = map ?g (enumeration_order ?ks)"
    unfolding conceptCounts_table [OF assms(2)] count_table_def Object_entries_table
      enumeration_order_def ..
  then have "Array_sort compare_counts (Object_entries (conceptCounts (tally ar results))) =
      map ?g (ranked ?ks)"
    by (simp only: Array_sort_counts ranked_def)
  then have s: "take 200 (Array_sort compare_counts (Object_entries (conceptCounts (tally ar results)))) =
      map ?g (take 200 (ranked ?ks))"
    by (simp add: take_map)
  have d: "distinct (map fst (map ?g (take 200 (ranked ?ks))))"
    by (simp add: comp_def distinct_take)
  have "''__proto__'' \<notin> set ?ks"
    using assms(2) plain_not_proto by (auto simp: list_all_iff)
  then have "''__proto__'' \<notin> set (take 200 (ranked ?ks))"
    using set_take_subset [of 200 "ranked ?ks"] by auto
  then have p: "''__proto__'' \<notin> fst ` set (map ?g (take 200 (ranked ?ks)))"
    by (auto simp: image_iff)
  have "foldl (\<lambda>obj (concept, count). obj_set obj concept count) []
      (map ?g (take 200 (ranked ?ks))) = map ?g (take 200 (ranked ?ks))"
    using rebuild_object [of "[]" "map ?g (take 200 (ranked ?ks))"] d p by simp
  then show ?thesis
    using n by (simp add: updateMeters_def Let_def s)
qed

text \<open>
  C4, as amended. For a batch with at least one success in which no concept lower-cases to
  a key of \<open>Object.prototype\<close>: \<open>topConcepts\<close> holds the first 200 concepts of the ranking
  by count, descending, where ties keep the order in which the object lists its keys (array
  indices first, in ascending numeric order, then the other keys as first seen); each kept
  concept carries its exact number of occurrences; there are at most 200 entries; and when
  the batch has at most 200 distinct concepts, all of them are present.
\<close>

theorem top_concepts_ranked:
  assumes "successes results \<noteq> []" and "list_all plain_key (batch_concepts results)"
  shows "\<exists>d. updateMeters ar now results = Some d \<and>
    topConcepts d =
      map (\<lambda>k. (k, JNum (count_list (batch_concepts results) k)))
        (take 200 (ranked (batch_concepts results))) \<and>
    length (topConcepts d) \<le> 200 \<and>
    (card (set (batch_concepts results)) \<le> 200 \<longrightarrow>
      (\<forall>k. map_of (topConcepts d) k =
        (if k \<in> set (batch_concepts results)
         then Some (JNum (count_list (batch_concepts results) k)) else None)))"
proof -
  let ?ks = "batch_concepts results"
  obtain d where d: "updateMeters ar now results = Some d"
    "topConcepts d = map (\<lambda>k. (k, JNum (count_list ?ks k))) (take 200 (ranked ?ks))"
    using top_concepts_table [OF assms] by blast
  have "length (topConcepts d) \<le> 200"
    by (simp add: d(2))
  moreover have "map_of (topConcepts d) k =
      (if k \<in> set ?ks then Some (JNum (count_list ?ks k)) else None)"
    if "card (set ?ks) \<le> 200" for k
  proof -
    have "take 200 (ranked ?ks) = ranked ?ks"
      using that by (simp add: length_ranked)
    then show ?thesis
      by (auto simp: d(2) map_of_map_restrict restrict_map_def)
  qed
  ultimately show ?thesis
    using d by blast
qed

lemma numeric_count_plus_one: "numeric_count (js_plus_one (js_or v (JNum 0))) \<le> numeric_count v + 1"
  by (cases v) (auto simp: js_or_def truthy_def)

lemma update_absent:
  "k \<notin> fst ` set obj \<Longrightarrow> map (\<lambda>(k', v'). if k' = k then (k', v) else (k', v')) obj = obj"
  by (induction obj) auto

lemma total_count_update:
  assumes "distinct (map fst obj)" and "map_of obj k = Some v0"
  shows "total_count (map (\<lambda>(k', v'). if k' = k then (k', v) else (k', v')) obj) + numeric_count v0 =
    total_count obj + numeric_count v"
  using assms
proof (induction obj)
  case Nil
  then show ?case by simp
next
  case (Cons p obj)
  obtain k1 v1 where p: "p = (k1, v1)" by (cases p)
  show ?case
  proof (cases "k1 = k")
    case True
    then have "k \<notin> fst ` set obj" using Cons.prems(1) by (simp add: p)
    then have "map (\<lambda>(k', v'). if k' = k then (k', v) else (k', v')) obj = obj"
      by (simp add: update_absent)
    then show ?thesis
      using True Cons.prems(2) by (simp add: p total_count_def)
  next
    case False
    then show ?thesis
      using Cons by (simp add: p total_count_def)
  qed
qed

lemma keys_update:
  "map fst (map (\<lambda>(k', v'). if k' = k then (k', v) else (k', v')) obj) = map fst obj"
  by (induction obj) auto

lemma keys_obj_set:
  "map fst (obj_set obj k v) =
     (if map_of obj k \<noteq> None \<or> k = ''__proto__'' then map fst obj else map fst obj @ [k])"
proof (cases "map_of obj k \<noteq> None")
  case True
  then have "obj_set obj k v = map (\<lambda>(k', v'). if k' = k then (k', v) else (k', v')) obj"
    by (simp add: obj_set_def)
  then show ?thesis
    using True by (simp only: keys_update) simp
next
  case False
  then show ?thesis
    by (simp add: obj_set_def)
qed

lemma distinct_obj_set:
  "distinct (map fst obj) \<Longrightarrow> distinct (map fst (obj_set obj k v))"
  unfolding keys_obj_set by (auto simp: map_of_eq_None_iff)

lemma no_proto_obj_set:
  "''__proto__'' \<notin> set (map fst obj) \<Longrightarrow> ''__proto__'' \<notin> set (map fst (obj_set obj k v))"
  unfolding keys_obj_set by auto

lemma total_count_concept:
  assumes "distinct (map fst obj)"
  shows "total_count (count_concept obj c) \<le> total_count obj + 1"
proof (cases "map_of obj (toLowerCase c)")
  case None
  have "numeric_count (js_plus_one (js_or (Object_prototype (toLowerCase c)) (JNum 0))) \<le> 1"
    by (auto simp: Object_prototype_def js_or_def truthy_def)
  then show ?thesis
    using None by (auto simp: count_concept_def Let_def obj_set_def obj_get_def total_count_def)
next
  case (Some v0)
  let ?v = "js_plus_one (js_or v0 (JNum 0))"
  have g: "obj_get obj (toLowerCase c) = v0"
    using Some by (simp add: obj_get_def)
  have e: "count_concept obj c =
      map (\<lambda>(k', v'). if k' = toLowerCase c then (k', ?v) else (k', v')) obj"
    unfolding count_concept_def Let_def g using Some by (simp add: obj_set_def)
  have "total_count (map (\<lambda>(k', v'). if k' = toLowerCase c then (k', ?v) else (k', v')) obj) +
      numeric_count v0 = total_count obj + numeric_count ?v"
    using assms Some by (rule total_count_update)
  then show ?thesis
    unfolding e using numeric_count_plus_one [of v0] by linarith
qed

lemma counts_invariant:
  assumes "distinct (map fst obj)" and "''__proto__'' \<notin> set (map fst obj)"
  shows "distinct (map fst (foldl count_concept obj cs)) \<and>
    ''__proto__'' \<notin> set (map fst (foldl count_concept obj cs)) \<and>
    total_count (foldl count_concept obj cs) \<le> total_count obj + length cs"
  using assms
proof (induction cs arbitrary: obj)
  case Nil
  then show ?case by simp
next
  case (Cons c cs)
  have d: "distinct (map fst (count_concept obj c))"
    using Cons.prems(1) by (simp add: count_concept_def Let_def distinct_obj_set)
  have p: "''__proto__'' \<notin> set (map fst (count_concept obj c))"
    using Cons.prems(2) by (simp only: count_concept_def Let_def) (rule no_proto_obj_set)
  have t: "total_count (count_concept obj c) \<le> total_count obj + 1"
    using Cons.prems(1) by (rule total_count_concept)
  show ?case
    using Cons.IH [OF d p] t by simp
qed

lemma mset_insert_sorted: "mset (insert_sorted cmp x ys) = add_mset x (mset ys)"
  by (induction ys) simp_all

lemma mset_Array_sort: "mset (Array_sort cmp xs) = mset xs"
  by (induction xs) (simp_all add: Array_sort_def mset_insert_sorted)

lemma mset_Object_entries: "mset (Object_entries obj) = mset obj"
  by (simp add: Object_entries_def case_prod_unfold)

lemma total_count_mset:
  assumes "mset xs = mset ys"
  shows "total_count xs = total_count ys"
proof -
  have "total_count zs = sum_mset (image_mset (\<lambda>(k, v). numeric_count v) (mset zs))" for zs
    unfolding total_count_def by (simp add: sum_mset_sum_list [symmetric])
  then show ?thesis
    using assms by simp
qed

lemma total_count_take: "total_count (take n xs) \<le> total_count xs"
proof -
  have "total_count xs = total_count (take n xs) + total_count (drop n xs)"
    using sum_list_append [of "map (\<lambda>(k, v). numeric_count v) (take n xs)"
        "map (\<lambda>(k, v). numeric_count v) (drop n xs)"]
    by (simp add: total_count_def map_append [symmetric] del: map_append)
  then show ?thesis by simp
qed

lemma keys_mset: "mset xs = mset ys \<Longrightarrow> mset (map fst xs) = mset (map fst ys)"
  by simp

lemma top_concepts_total:
  assumes "updateMeters ar now results = Some d"
  shows "total_count (topConcepts d) \<le> length (concat (map concepts (successes results)))"
proof -
  let ?obj = "conceptCounts (tally ar results)"
  let ?sorted = "take 200 (Array_sort compare_counts (Object_entries ?obj))"
  have inv: "distinct (map fst ?obj)" "''__proto__'' \<notin> set (map fst ?obj)"
    "total_count ?obj \<le> length (concat (map concepts (successes results)))"
    using counts_invariant [of "[]" "concat (map concepts (successes results))"]
    by (simp_all add: tally_def tally_conceptCounts Tally_init_def total_count_def)
  have m: "mset (Array_sort compare_counts (Object_entries ?obj)) = mset ?obj"
    by (simp add: mset_Array_sort mset_Object_entries)
  have "distinct (map fst (Array_sort compare_counts (Object_entries ?obj)))"
    using inv(1) mset_eq_imp_distinct_iff [OF keys_mset [OF m]] by simp
  then have d1: "distinct (map fst ?sorted)"
    by (simp add: take_map [symmetric] distinct_take)
  have "set (map fst (Array_sort compare_counts (Object_entries ?obj))) = set (map fst ?obj)"
    using mset_eq_setD [OF keys_mset [OF m]] .
  then have "''__proto__'' \<notin> set (map fst (Array_sort compare_counts (Object_entries ?obj)))"
    using inv(2) by simp
  then have p1: "''__proto__'' \<notin> fst ` set ?sorted"
    using set_take_subset [of 200 "Array_sort compare_counts (Object_entries ?obj)"] by auto
  have r: "foldl (\<lambda>obj (concept, count). obj_set obj concept count) [] ?sorted = ?sorted"
    using rebuild_object [of "[]" ?sorted] d1 p1 by simp
  have "topConcepts d = ?sorted"
    using assms r by (auto simp: updateMeters_def Let_def split: if_splits)
  moreover have "total_count ?sorted \<le> total_count ?obj"
    using total_count_take [of 200 "Array_sort compare_counts (Object_entries ?obj)"]
      total_count_mset [OF m] by simp
  ultimately show ?thesis
    using inv(3) by simp
qed

lemma concepts_bound:
  "list_all (\<lambda>r. length (concepts r) \<le> 3) ss \<Longrightarrow> length (concat (map concepts ss)) \<le> length ss * 3"
  by (induction ss) auto

text \<open>
  C8, as amended. The numeric counts of \<open>topConcepts\<close> sum to at most the number of concepts
  that the successes of the batch carry, hence to at most \<open>messageCount * 3\<close> when every
  success carries at most three concepts (the parser does not limit their number).
\<close>

theorem concept_counts_bounded:
  assumes "updateMeters ar now results = Some d"
  shows "total_count (topConcepts d) \<le> length (concat (map concepts (successes results))) \<and>
    (list_all (\<lambda>r. length (concepts r) \<le> 3) (successes results) \<longrightarrow>
       total_count (topConcepts d) \<le> messageCount d * 3)"
proof -
  have "messageCount d = length (successes results)"
    using assms
    by (auto simp: updateMeters_def Let_def tally_def tally_messageCount Tally_init_def
        split: if_splits)
  then show ?thesis
    using top_concepts_total [OF assms] concepts_bound [of "successes results"] by auto
qed

theorem top_concepts_ranked_witness:
  "\<exists>d. updateMeters symbolic 1735923600123
     [Success \<lparr>happiness = ParseFloat ''5'', sadness = ParseFloat ''1'', anger = ParseFloat ''0'',
        fear = ParseFloat ''0'', surprise = ParseFloat ''2'', disgust = ParseFloat ''0'',
        concepts = [''War'', ''7'']\<rparr>,
      Failure (Some ''NO SENTIMENT''),
      Success \<lparr>happiness = ParseFloat ''7'', sadness = ParseFloat ''2'', anger = ParseFloat ''0'',
        fear = ParseFloat ''0'', surprise = ParseFloat ''2'', disgust = ParseFloat ''0'',
        concepts = [''Peace'', ''war'', ''10'', ''2'']\<rparr>] = Some d \<and>
    topConcepts d =
      [(''war'', JNum 2), (''2'', JNum 1), (''7'', JNum 1), (''10'', JNum 1), (''peace'', JNum 1)]"
proof -
  let ?results = "[Success \<lparr>happiness = ParseFloat ''5'', sadness = ParseFloat ''1'', anger = ParseFloat ''0'',
        fear = ParseFloat ''0'', surprise = ParseFloat ''2'', disgust = ParseFloat ''0'',
        concepts = [''War'', ''7'']\<rparr>,
      Failure (Some ''NO SENTIMENT''),
      Success \<lparr>happiness = ParseFloat ''7'', sadness = ParseFloat ''2'', anger = ParseFloat ''0'',
        fear = ParseFloat ''0'', surprise = ParseFloat ''2'', disgust = ParseFloat ''0'',
        concepts = [''Peace'', ''war'', ''10'', ''2'']\<rparr>]"
  have b: "batch_concepts ?results = [''war'', ''7'', ''peace'', ''war'', ''10'', ''2'']"
    by code_simp
  have p: "list_all plain_key (batch_concepts ?results)"
    unfolding b by code_simp
  have r: "ranked [''war'', ''7'', ''peace'', ''war'', ''10'', ''2''] = [''war'', ''2'', ''7'', ''10'', ''peace'']"
    by code_simp
  have s: "successes ?results \<noteq> []"
    by simp
  show ?thesis
    using top_concepts_ranked [OF s p, of symbolic 1735923600123] unfolding b r by auto
qed

text \<open>
  C4 as stated fails: \<open>peace\<close> is seen before \<open>7\<close> and both occur once, yet the sorted
  entries start with \<open>7\<close>, because \<open>Object.entries\<close> lists an array index before any other key.
\<close>

theorem first_seen_ties_counterexample:
  "first_seen (batch_concepts
     [Success \<lparr>happiness = ParseFloat ''5'', sadness = ParseFloat ''1'', anger = ParseFloat ''0'',
        fear = ParseFloat ''0'', surprise = ParseFloat ''2'', disgust = ParseFloat ''0'',
        concepts = [''peace'', ''7'']\<rparr>]) = [''peace'', ''7''] \<and>
   Array_sort compare_counts (Object_entries (conceptCounts (tally symbolic
     [Success \<lparr>happiness = ParseFloat ''5'', sadness = ParseFloat ''1'', anger = ParseFloat ''0'',
        fear = ParseFloat ''0'', surprise = ParseFloat ''2'', disgust = ParseFloat ''0'',
        concepts = [''peace'', ''7'']\<rparr>]))) =
     [(''7'', JNum 1), (''peace'', JNum 1)] \<and>
   map_option topConcepts (updateMeters symbolic 1735923600123
     [Success \<lparr>happiness = ParseFloat ''5'', sadness = ParseFloat ''1'', anger = ParseFloat ''0'',
        fear = ParseFloat ''0'', surprise = ParseFloat ''2'', disgust = ParseFloat ''0'',
        concepts = [''peace'', ''7'']\<rparr>]) =
     Some [(''7'', JNum 1), (''peace'', JNum 1)]"
  by code_simp

text \<open>
  C8 as stated fails: one success with four concepts gives \<open>messageCount = 1\<close> and counts
  that sum to 4.
\<close>

theorem four_concepts_counterexample:
  "map_option messageCount (updateMeters symbolic 1735923600123
     [Success \<lparr>happiness = ParseFloat ''5'', sadness = ParseFloat ''1'', anger = ParseFloat ''0'',
        fear = ParseFloat ''0'', surprise = ParseFloat ''2'', disgust = ParseFloat ''0'',
        concepts = [''peace'', ''war'', ''ukraine'', ''news'']\<rparr>]) = Some 1 \<and>
   map_option topConcepts (updateMeters symbolic 1735923600123
     [Success \<lparr>happiness = ParseFloat ''5'', sadness = ParseFloat ''1'', anger = ParseFloat ''0'',
        fear = ParseFloat ''0'', surprise = ParseFloat ''2'', disgust = ParseFloat ''0'',
        concepts = [''peace'', ''war'', ''ukraine'', ''news'']\<rparr>]) =
     Some [(''peace'', JNum 1), (''war'', JNum 1), (''ukraine'', JNum 1), (''news'', JNum 1)] \<and>
   total_count [(''peace'', JNum 1), (''war'', JNum 1), (''ukraine'', JNum 1), (''news'', JNum 1)] = 4"
  by code_simp

theorem concept_counts_bounded_witness:
  "updateMeters symbolic 1735923600123
     [Success \<lparr>happiness = ParseFloat ''5'', sadness = ParseFloat ''1'', anger = ParseFloat ''0'',
        fear = ParseFloat ''0'', surprise = ParseFloat ''2'', disgust = ParseFloat ''0'',
        concepts = [''Peace'', ''war'', ''constructor'']\<rparr>,
      Failure None,
      Success \<lparr>happiness = ParseFloat ''7'', sadness = ParseFloat ''2'', anger = ParseFloat ''0'',
        fear = ParseFloat ''0'', surprise = ParseFloat ''2'', disgust = ParseFloat ''0'',
        concepts = [''peace'']\<rparr>] =
   Some \<lparr>messageCount = 2, happinessAvg = Over (Plus (Plus Zero (ParseFloat ''5'')) (ParseFloat ''7'')) 2,
     sadnessAvg = Over (Plus (Plus Zero (ParseFloat ''1'')) (ParseFloat ''2'')) 2,
     angerAvg = Over (Plus (Plus Zero (ParseFloat ''0'')) (ParseFloat ''0'')) 2,
     fearAvg = Over (Plus (Plus Zero (ParseFloat ''0'')) (ParseFloat ''0'')) 2,
     surpriseAvg = Over (Plus (Plus Zero (ParseFloat ''2'')) (ParseFloat ''2'')) 2,
     disgustAvg = Over (Plus (Plus Zero (ParseFloat ''0'')) (ParseFloat ''0'')) 2,
     timestamp = ''2025-01-03T17:00:00.123Z'',
     topConcepts = [(''peace'', JNum 2), (''war'', JNum 1),
       (''constructor'', JStr ''function Object() { [native code] }1'')]\<rparr> \<and>
   total_count [(''peace'', JNum 2), (''war'', JNum 1),
       (''constructor'', JStr ''function Object() { [native code] }1'')] \<le> 4 \<and>
   total_count [(''peace'', JNum 2), (''war'', JNum 1),
       (''constructor'', JStr ''function Object() { [native code] }1'')] \<le> 2 * 3"
proof -
  have u: "updateMeters symbolic 1735923600123
     [Success \<lparr>happiness = ParseFloat ''5'', sadness = ParseFloat ''1'', anger = ParseFloat ''0'',
        fear = ParseFloat ''0'', surprise = ParseFloat ''2'', disgust = ParseFloat ''0'',
        concepts = [''Peace'', ''war'', ''constructor'']\<rparr>,
      Failure None,
      Success \<lparr>happiness = ParseFloat ''7'', sadness = ParseFloat ''2'', anger = ParseFloat ''0'',
        fear = ParseFloat ''0'', surprise = ParseFloat ''2'', disgust = ParseFloat ''0'',
        concepts = [''peace'']\<rparr>] =
   Some \<lparr>messageCount = 2, happinessAvg = Over (Plus (Plus Zero (ParseFloat ''5'')) (ParseFloat ''7'')) 2,
     sadnessAvg = Over (Plus (Plus Zero (ParseFloat ''1'')) (ParseFloat ''2'')) 2,
     angerAvg = Over (Plus (Plus Zero (ParseFloat ''0'')) (ParseFloat ''0'')) 2,
     fearAvg = Over (Plus (Plus Zero (ParseFloat ''0'')) (ParseFloat ''0'')) 2,
     surpriseAvg = Over (Plus (Plus Zero (ParseFloat ''2'')) (ParseFloat ''2'')) 2,
     disgustAvg = Over (Plus (Plus Zero (ParseFloat ''0'')) (ParseFloat ''0'')) 2,
     timestamp = ''2025-01-03T17:00:00.123Z'',
     topConcepts = [(''peace'', JNum 2), (''war'', JNum 1),
       (''constructor'', JStr ''function Object() { [native code] }1'')]\<rparr>"
    by code_simp
  show ?thesis
    using concept_counts_bounded [OF u] u by simp
qed

lemma cleanup_fields [simp]:
  "eventCount (cleanup st) = eventCount st" "delivered (cleanup st) = delivered st"
  "isClosed (cleanup st)"
  by (simp_all add: cleanup_def)

lemma collector_invariant:
  assumes "eventLimit options = n" and "0 < n"
    and "eventCount st = length ps" and "delivered st = take n ps"
    and "n < length ps \<longrightarrow> isClosed st"
  shows "eventCount (foldl (on_event options) st es) = length (ps @ created es) \<and>
    delivered (foldl (on_event options) st es) = take n (ps @ created es) \<and>
    (n < length (ps @ created es) \<longrightarrow> isClosed (foldl (on_event options) st es))"
  using assms(3-5)
proof (induction es arbitrary: st ps)
  case Nil
  then show ?case by simp
next
  case (Cons e es)
  show ?case
  proof (cases e)
    case (Create post)
    let ?st = "on_event options st (Create post)"
    have "eventCount ?st = length (ps @ [post])"
      using Cons.prems(1) by (simp add: Let_def)
    moreover have "delivered ?st = take n (ps @ [post])"
      using Cons.prems(1,2) assms(1,2) by (auto simp: Let_def)
    moreover have "n < length (ps @ [post]) \<longrightarrow> isClosed ?st"
      using Cons.prems(1) assms(1,2) by (auto simp: Let_def)
    ultimately show ?thesis
      using Cons.IH [of ?st "ps @ [post]"] Create by simp
  next
    case Unreadable
    then show ?thesis
      using Cons.IH [of "on_event options st e" ps] Cons.prems by simp
  next
    case SocketError
    then show ?thesis
      using Cons.IH [of "on_event options st e" ps] Cons.prems by simp
  next
    case SocketClose
    then show ?thesis
      using Cons.IH [of "on_event options st e" ps] Cons.prems by simp
  next
    case TimerFired
    then show ?thesis
      using Cons.IH [of "on_event options st e" ps] Cons.prems by simp
  qed
qed

lemma collector_closed:
  assumes "eventLimit options = n" and "0 < n"
    and "eventCount st = length ps"
    and "n < length ps \<longrightarrow> isClosed st"
  shows "isClosed (foldl (on_event options) st es) \<longleftrightarrow>
    isClosed st \<or> n < length (ps @ created es) \<or> SocketClose \<in> set es \<or>
    (durationMs options \<noteq> 0 \<and> TimerFired \<in> set es)"
  using assms(3,4)
proof (induction es arbitrary: st ps)
  case Nil
  then show ?case by auto
next
  case (Cons e es)
  show ?case
  proof (cases e)
    case (Create post)
    let ?st = "on_event options st (Create post)"
    have c: "eventCount ?st = length (ps @ [post])"
      using Cons.prems(1) by (simp add: Let_def)
    have k: "isClosed ?st \<longleftrightarrow> isClosed st \<or> n < length (ps @ [post])"
      using Cons.prems(1) assms(1,2) by (auto simp: Let_def cleanup_def)
    then have i: "n < length (ps @ [post]) \<longrightarrow> isClosed ?st"
      by simp
    have "isClosed (foldl (on_event options) ?st es) \<longleftrightarrow>
        isClosed ?st \<or> n < length ((ps @ [post]) @ created es) \<or> SocketClose \<in> set es \<or>
        (durationMs options \<noteq> 0 \<and> TimerFired \<in> set es)"
      using c i by (rule Cons.IH)
    then show ?thesis
      unfolding k using Create by auto
  next
    case Unreadable
    have "isClosed (foldl (on_event options) (on_event options st e) es) \<longleftrightarrow>
        isClosed (on_event options st e) \<or> n < length (ps @ created es) \<or> SocketClose \<in> set es \<or>
        (durationMs options \<noteq> 0 \<and> TimerFired \<in> set es)"
      using Cons.prems Unreadable by (intro Cons.IH) simp_all
    then show ?thesis
      using Unreadable by simp
  next
    case SocketError
    have "isClosed (foldl (on_event options) (on_event options st e) es) \<longleftrightarrow>
        isClosed (on_event options st e) \<or> n < length (ps @ created es) \<or> SocketClose \<in> set es \<or>
        (durationMs options \<noteq> 0 \<and> TimerFired \<in> set es)"
      using Cons.prems SocketError by (intro Cons.IH) simp_all
    then show ?thesis
      using SocketError by simp
  next
    case SocketClose
    have "isClosed (foldl (on_event options) (on_event options st e) es) \<longleftrightarrow>
        isClosed (on_event options st e) \<or> n < length (ps @ created es) \<or> SocketClose \<in> set es \<or>
        (durationMs options \<noteq> 0 \<and> TimerFired \<in> set es)"
      using Cons.prems SocketClose by (intro Cons.IH) (simp_all add: cleanup_def)
    then show ?thesis
      using SocketClose by (simp add: cleanup_def)
  next
    case TimerFired
    have "isClosed (foldl (on_event options) (on_event options st e) es) \<longleftrightarrow>
        isClosed (on_event options st e) \<or> n < length (ps @ created es) \<or> SocketClose \<in> set es \<or>
        (durationMs options \<noteq> 0 \<and> TimerFired \<in> set es)"
      using Cons.prems TimerFired by (intro Cons.IH) (simp_all add: cleanup_def)
    then show ?thesis
      using TimerFired by (auto simp: cleanup_def)
  qed
qed

text \<open>
  C9, as amended. With an event limit \<open>n \<ge> 1\<close>, whatever the events and their order, the posts
  passed to \<open>onPost\<close> are exactly the first \<open>n\<close> posts of the stream, so never more than \<open>n\<close>;
  later posts are dropped. Reaching the limit does not stop the collection: the collector is
  closed (and its promise resolved) exactly when a post beyond the limit has arrived, the
  socket has closed, or the timer of a given duration has fired; so after exactly \<open>n\<close> posts
  and none of the other two it is still open, and the post numbered \<open>n + 1\<close> stops it.
  \<open>updateMeters\<close> collects at most 2000 posts.
\<close>

theorem collection_bounded:
  assumes "0 < n"
  shows "delivered (connectToFirehose \<lparr>durationMs = ms, eventLimit = n\<rparr> events) = take n (created events) \<and>
    length (delivered (connectToFirehose \<lparr>durationMs = ms, eventLimit = n\<rparr> events)) \<le> n \<and>
    (isClosed (connectToFirehose \<lparr>durationMs = ms, eventLimit = n\<rparr> events) \<longleftrightarrow>
       n < length (created events) \<or> SocketClose \<in> set events \<or>
       (ms \<noteq> 0 \<and> TimerFired \<in> set events)) \<and>
    length (collectedPosts events) \<le> 2000"
proof -
  have d: "delivered (connectToFirehose \<lparr>durationMs = ms, eventLimit = n\<rparr> events) = take n (created events)"
    if "0 < n" for ms n
    using collector_invariant [of "\<lparr>durationMs = ms, eventLimit = n\<rparr>" n Collector_init "[]" events] that
    by (simp add: connectToFirehose_def Collector_init_def)
  have c: "isClosed (connectToFirehose \<lparr>durationMs = ms, eventLimit = n\<rparr> events) \<longleftrightarrow>
       n < length (created events) \<or> SocketClose \<in> set events \<or>
       (ms \<noteq> 0 \<and> TimerFired \<in> set events)"
    using collector_closed [of "\<lparr>durationMs = ms, eventLimit = n\<rparr>" n Collector_init "[]" events] assms
    by (simp add: connectToFirehose_def Collector_init_def)
  from d [OF assms, of ms] d [of 2000 0] c show ?thesis
    by (simp add: collectedPosts_def)
qed

theorem collection_bounded_witness:
  "delivered (connectToFirehose \<lparr>durationMs = 0, eventLimit = 2\<rparr>
     [Create \<lparr>text_of = ''a'', did = ''d1'', collection = ''app.bsky.feed.post'', rkey = ''1''\<rparr>,
      SocketError,
      Create \<lparr>text_of = ''b'', did = ''d2'', collection = ''app.bsky.feed.post'', rkey = ''2''\<rparr>,
      Create \<lparr>text_of = ''c'', did = ''d3'', collection = ''app.bsky.feed.post'', rkey = ''3''\<rparr>,
      Create \<lparr>text_of = ''d'', did = ''d4'', collection = ''app.bsky.feed.post'', rkey = ''4''\<rparr>]) =
     [\<lparr>text_of = ''a'', did = ''d1'', collection = ''app.bsky.feed.post'', rkey = ''1''\<rparr>,
      \<lparr>text_of = ''b'', did = ''d2'', collection = ''app.bsky.feed.post'', rkey = ''2''\<rparr>] \<and>
   isClosed (connectToFirehose \<lparr>durationMs = 0, eventLimit = 2\<rparr>
     [Create \<lparr>text_of = ''a'', did = ''d1'', collection = ''app.bsky.feed.post'', rkey = ''1''\<rparr>,
      SocketError,
      Create \<lparr>text_of = ''b'', did = ''d2'', collection = ''app.bsky.feed.post'', rkey = ''2''\<rparr>,
      Create \<lparr>text_of = ''c'', did = ''d3'', collection = ''app.bsky.feed.post'', rkey = ''3''\<rparr>,
      Create \<lparr>text_of = ''d'', did = ''d4'', collection = ''app.bsky.feed.post'', rkey = ''4''\<rparr>]) \<and>
   \<not> isClosed (connectToFirehose \<lparr>durationMs = 0, eventLimit = 2\<rparr>
     [Create \<lparr>text_of = ''a'', did = ''d1'', collection = ''app.bsky.feed.post'', rkey = ''1''\<rparr>,
      SocketError,
      TimerFired,
      Create \<lparr>text_of = ''b'', did = ''d2'', collection = ''app.bsky.feed.post'', rkey = ''2''\<rparr>])"
  using collection_bounded [of 2 0
     "[Create \<lparr>text_of = ''a'', did = ''d1'', collection = ''app.bsky.feed.post'', rkey = ''1''\<rparr>,
      SocketError,
      Create \<lparr>text_of = ''b'', did = ''d2'', collection = ''app.bsky.feed.post'', rkey = ''2''\<rparr>,
      Create \<lparr>text_of = ''c'', did = ''d3'', collection = ''app.bsky.feed.post'', rkey = ''3''\<rparr>,
      Create \<lparr>text_of = ''d'', did = ''d4'', collection = ''app.bsky.feed.post'', rkey = ''4''\<rparr>]"]
    collection_bounded [of 2 0
     "[Create \<lparr>text_of = ''a'', did = ''d1'', collection = ''app.bsky.feed.post'', rkey = ''1''\<rparr>,
      SocketError,
      TimerFired,
      Create \<lparr>text_of = ''b'', did = ''d2'', collection = ''app.bsky.feed.post'', rkey = ''2''\<rparr>]"]
  by simp

text \<open>
  C9 as stated fails in its first part: with the limit 1 and one post received, the count has
  reached the ceiling and the collector is still open; it stops only on the next post.
\<close>

theorem ceiling_reached_counterexample:
  "eventCount (connectToFirehose \<lparr>durationMs = 0, eventLimit = 1\<rparr>
     [Create \<lparr>text_of = ''a'', did = ''d1'', collection = ''app.bsky.feed.post'', rkey = ''1''\<rparr>]) = 1 \<and>
   \<not> isClosed (connectToFirehose \<lparr>durationMs = 0, eventLimit = 1\<rparr>
     [Create \<lparr>text_of = ''a'', did = ''d1'', collection = ''app.bsky.feed.post'', rkey = ''1''\<rparr>])"
  by (simp add: connectToFirehose_def Collector_init_def)

end
